theory Spec2Isabelle
  imports Main
begin

section \<open>Values, errors and BigNumber arithmetic\<close>

text \<open>
  The simulator computes with \<^verbatim>\<open>BigNumber\<close> values that stay integral: every division is
  \<^verbatim>\<open>dividedToIntegerBy\<close>. They are modelled as \<^typ>\<open>int\<close>. A failed \<^verbatim>\<open>assert\<close> throws;
  a division by zero makes a \<^verbatim>\<open>BigNumber\<close> infinite or NaN, and a missing array entry is
  \<^verbatim>\<open>undefined\<close>, which both leave the integers. All three are results of the model:
  \<open>Inl\<close> of an \<open>error\<close> (\<open>AssertionError\<close> with the message, \<open>NonFinite\<close>, \<open>TypeError\<close>).
\<close>

datatype TokenType = ERC20 | ERC1400

datatype error =
    AssertionError string
  | NonFinite
  | TypeError

definition andThen :: "error + 'a \<Rightarrow> ('a \<Rightarrow> error + 'b) \<Rightarrow> error + 'b" where
  "andThen m f = (case m of Inl e \<Rightarrow> Inl e | Inr x \<Rightarrow> f x)"

definition assert :: "bool \<Rightarrow> string \<Rightarrow> error + unit" where
  "assert c msg = (if c then Inr () else Inl (AssertionError msg))"

text \<open>\<^verbatim>\<open>a.dividedToIntegerBy(b)\<close>: the integer part of the quotient, truncated toward zero.\<close>

definition truncDiv :: "int \<Rightarrow> int \<Rightarrow> int" where
  "truncDiv a b = sgn a * sgn b * (\<bar>a\<bar> div \<bar>b\<bar>)"

definition dividedToIntegerBy :: "int \<Rightarrow> int \<Rightarrow> error + int" where
  "dividedToIntegerBy a b = (if b = 0 then Inl NonFinite else Inr (truncDiv a b))"

text \<open>
  Modelled from the spec: \<^verbatim>\<open>ensure.ts\<close> is not among the sources. Every use has the form
  \<^verbatim>\<open>valid = valid && ensure(cond, message)\<close> and the spec describes each as "sets valid=false
  if the condition fails": \<open>ensure\<close> returns its condition (the message is only logged).
\<close>

definition ensure :: "bool \<Rightarrow> string \<Rightarrow> bool" where
  "ensure c msg = c"

text \<open>JavaScript truthiness of an optional string: \<^verbatim>\<open>undefined\<close> and \<^verbatim>\<open>""\<close> are falsy.\<close>

fun truthy :: "string option \<Rightarrow> bool" where
  "truthy None = False"
| "truthy (Some s) = (s \<noteq> [])"

section \<open>Data model\<close>

record Spendable =
  initialized :: bool
  amount :: int
  reserved :: int
  initialAmount :: int

text \<open>
  An order is a JavaScript object shared by reference between the order array and the
  participations of every ring that uses it; its four spendables are objects of their own,
  which several orders may share. Orders and spendables therefore live in two stores, and an
  order's \<open>tokenSpendableS\<close> ... \<open>brokerSpendableFee\<close> fields are addresses in the second.
  The record has the fields of \<^verbatim>\<open>OrderInfo\<close> that the modelled code reads or writes; amounts
  and percentages are integers.
\<close>

record OrderInfo =
  owner :: string
  tokenRecipient :: string
  broker :: string
  brokerInterceptor :: "string option"
  walletAddr :: "string option"
  tokenS :: string
  tokenB :: string
  feeToken :: string
  amountS :: int
  amountB :: int
  feeAmount :: int
  trancheS :: string
  trancheB :: string
  trancheFee :: string
  tokenTypeS :: TokenType
  tokenTypeB :: TokenType
  tokenTypeFee :: TokenType
  transferDataS :: "string option"
  allOrNone :: bool
  P2P :: bool
  tokenSFeePercentage :: int
  tokenBFeePercentage :: int
  waiveFeePercentage :: int
  valid :: bool
  filledAmountS :: int
  tokenSpendableS :: nat
  tokenSpendableFee :: nat
  brokerSpendableS :: nat
  brokerSpendableFee :: nat

record World =
  orderHeap :: "nat \<Rightarrow> OrderInfo"
  spendables :: "nat \<Rightarrow> Spendable"

text \<open>
  The chain view behind \<^verbatim>\<open>Context\<close>: the constant \<open>feePercentageBase\<close>, the fee holder's
  address, and the read-only contract calls the modelled code makes. \<open>canSend\<close> takes
  (token, from, to, fromTranche, amount, data) and returns the status code and the
  destination tranche.
\<close>

record Context =
  feePercentageBase :: int
  feeHolder :: string
  canSend :: "string \<Rightarrow> string \<Rightarrow> string \<Rightarrow> string \<Rightarrow> int \<Rightarrow> string \<Rightarrow> string \<times> string"
  chainSpendable :: "TokenType \<Rightarrow> string \<Rightarrow> string \<Rightarrow> string \<Rightarrow> int"
  brokerAllowance :: "string \<Rightarrow> string \<Rightarrow> string \<Rightarrow> string \<Rightarrow> int"

record Participation =
  order :: nat
  splitS :: int
  feeAmount :: int
  feeAmountS :: int
  feeAmountB :: int
  rebateFee :: int
  rebateS :: int
  rebateB :: int
  fillAmountS :: int
  fillAmountB :: int
  ringSpendableS :: int
  ringSpendableFee :: int

record Ring =
  participations :: "Participation list"
  minerFeesToOrdersPercentage :: int
  valid :: bool

definition orderOf :: "World \<Rightarrow> Participation \<Rightarrow> OrderInfo" where
  "orderOf w p = orderHeap w (order p)"

section \<open>OrderUtil\<close>

text \<open>
  \<^verbatim>\<open>order.ts\<close> (class \<^verbatim>\<open>OrderUtil\<close>) is not among the sources; the operations of it that the
  ring and the simulator call are modelled from the spec.
\<close>

text \<open>
  Modelled from the spec: the first query of a Spendable (\<^verbatim>\<open>OrderUtil\<close>, absent). "Lazily
  caching the first query into the Spendable record and reusing it thereafter"; \<open>initialAmount\<close>
  "freezes the starting value".
\<close>

definition initSpendable :: "int \<Rightarrow> Spendable \<Rightarrow> Spendable" where
  "initSpendable a s =
     (if initialized s then s
      else s\<lparr>initialized := True, amount := a, initialAmount := a\<rparr>)"

text \<open>
  Modelled from the spec: the live budget of a Spendable (\<^verbatim>\<open>OrderUtil\<close>, absent).
  "\<open>amount - reserved\<close> is the live budget".
\<close>

definition live :: "Spendable \<Rightarrow> int" where
  "live s = amount s - reserved s"

text \<open>
  Modelled from the spec: \<open>getSpendable\<close> of \<^verbatim>\<open>OrderUtil\<close> (absent). It "returns the live
  spendable (balance and allowance, additionally filtered through broker interceptor when
  present) ... If a broker interceptor is present, the effective spendable is
  min(token-path-spendable, broker-path-spendable)". The chain's answers are \<open>chainSpendable\<close>
  and \<open>brokerAllowance\<close> of the context.
\<close>

definition getSpendable ::
  "Context \<Rightarrow> World \<Rightarrow> TokenType \<Rightarrow> string \<Rightarrow> string \<Rightarrow> OrderInfo \<Rightarrow> nat \<Rightarrow> nat \<Rightarrow> World \<times> int"
where
  "getSpendable ctx w tokenType token tranche oi tokenSpendable brokerSpendable =
     (let sp1 = (spendables w)
            (tokenSpendable :=
               initSpendable (chainSpendable ctx tokenType token tranche (owner oi))
                 (spendables w tokenSpendable))
      in case brokerInterceptor oi of
           Some interceptor \<Rightarrow>
             if interceptor \<noteq> [] then
               (let sp2 = sp1
                      (brokerSpendable :=
                         initSpendable (brokerAllowance ctx token (owner oi) (broker oi) interceptor)
                           (sp1 brokerSpendable))
                in (w\<lparr>spendables := sp2\<rparr>, min (live (sp2 tokenSpendable)) (live (sp2 brokerSpendable))))
             else (w\<lparr>spendables := sp1\<rparr>, live (sp1 tokenSpendable))
         | None \<Rightarrow> (w\<lparr>spendables := sp1\<rparr>, live (sp1 tokenSpendable)))"

text \<open>
  Modelled from the spec: \<open>getSpendableS\<close> of \<^verbatim>\<open>OrderUtil\<close> (absent), the spendable of the
  order's \<open>tokenS\<close> in \<open>trancheS\<close>.
\<close>

definition getSpendableS :: "Context \<Rightarrow> World \<Rightarrow> nat \<Rightarrow> World \<times> int" where
  "getSpendableS ctx w a =
     (let oi = orderHeap w a
      in getSpendable ctx w (tokenTypeS oi) (tokenS oi) (trancheS oi) oi
           (tokenSpendableS oi) (brokerSpendableS oi))"

text \<open>
  Modelled from the spec: \<open>getSpendableFee\<close> of \<^verbatim>\<open>OrderUtil\<close> (absent), the spendable of the
  order's \<open>feeToken\<close>.
\<close>

definition getSpendableFee :: "Context \<Rightarrow> World \<Rightarrow> nat \<Rightarrow> World \<times> int" where
  "getSpendableFee ctx w a =
     (let oi = orderHeap w a
      in getSpendable ctx w (tokenTypeFee oi) (feeToken oi) (trancheFee oi) oi
           (tokenSpendableFee oi) (brokerSpendableFee oi))"

text \<open>
  Modelled from the spec: adding to \<open>reserved\<close> (\<^verbatim>\<open>OrderUtil\<close>, absent).
  "\<open>reserveAmountS(order, amount)\<close> / \<open>reserveAmountFee\<close> / \<open>resetReservations\<close>: add/clear
  \<open>reserved\<close> on the Spendables."
\<close>

definition addReserved :: "nat \<Rightarrow> int \<Rightarrow> World \<Rightarrow> World" where
  "addReserved s a w =
     w\<lparr>spendables := (spendables w)(s := (spendables w s)\<lparr>reserved := reserved (spendables w s) + a\<rparr>)\<rparr>"

text \<open>Modelled from the spec: clearing \<open>reserved\<close> (\<^verbatim>\<open>OrderUtil\<close>, absent), as above.\<close>

definition clearReserved :: "nat \<Rightarrow> World \<Rightarrow> World" where
  "clearReserved s w =
     w\<lparr>spendables := (spendables w)(s := (spendables w s)\<lparr>reserved := 0\<rparr>)\<rparr>"

text \<open>
  Modelled from the spec: \<open>reserveAmountS\<close> of \<^verbatim>\<open>OrderUtil\<close> (absent). It adds to \<open>reserved\<close> on
  the order's \<open>tokenS\<close> spendables: the token's and, with a broker interceptor, the broker's.
\<close>

definition reserveAmountS :: "World \<Rightarrow> nat \<Rightarrow> int \<Rightarrow> World" where
  "reserveAmountS w a amt =
     (let oi = orderHeap w a; w1 = addReserved (tokenSpendableS oi) amt w
      in if truthy (brokerInterceptor oi) then addReserved (brokerSpendableS oi) amt w1 else w1)"

text \<open>
  Modelled from the spec: \<open>reserveAmountFee\<close> of \<^verbatim>\<open>OrderUtil\<close> (absent), the same on the fee
  spendables.
\<close>

definition reserveAmountFee :: "World \<Rightarrow> nat \<Rightarrow> int \<Rightarrow> World" where
  "reserveAmountFee w a amt =
     (let oi = orderHeap w a; w1 = addReserved (tokenSpendableFee oi) amt w
      in if truthy (brokerInterceptor oi) then addReserved (brokerSpendableFee oi) amt w1 else w1)"

text \<open>
  Modelled from the spec: \<open>resetReservations\<close> of \<^verbatim>\<open>OrderUtil\<close> (absent). It clears \<open>reserved\<close>
  on the order's spendables.
\<close>

definition resetReservations :: "World \<Rightarrow> nat \<Rightarrow> World" where
  "resetReservations w a =
     (let oi = orderHeap w a;
          w1 = clearReserved (tokenSpendableFee oi) (clearReserved (tokenSpendableS oi) w)
      in if truthy (brokerInterceptor oi)
         then clearReserved (brokerSpendableFee oi) (clearReserved (brokerSpendableS oi) w1)
         else w1)"

text \<open>
  Modelled from the spec: \<open>validateAllOrNone\<close> of \<^verbatim>\<open>OrderUtil\<close> (absent). It "sets
  \<open>order.valid=false\<close> if \<open>allOrNone\<close> and \<open>filledAmountS < amountS\<close> after settlement planning".
\<close>

definition validateAllOrNone :: "OrderInfo \<Rightarrow> OrderInfo" where
  "validateAllOrNone oi =
     (if allOrNone oi \<and> filledAmountS oi < amountS oi then oi\<lparr>OrderInfo.valid := False\<rparr> else oi)"

section \<open>Ring\<close>

text \<open>
  The constructor: one zeroed participation per order, \<open>valid = true\<close> and
  \<open>minerFeesToOrdersPercentage = 0\<close>. (The diagnostic payment trees are logging only and are
  left out, here and below.)
\<close>

definition newParticipation :: "nat \<Rightarrow> Participation" where
  "newParticipation a =
     \<lparr>order = a, splitS = 0, feeAmount = 0, feeAmountS = 0, feeAmountB = 0,
      rebateFee = 0, rebateS = 0, rebateB = 0, fillAmountS = 0, fillAmountB = 0,
      ringSpendableS = 0, ringSpendableFee = 0\<rparr>"

definition newRing :: "nat list \<Rightarrow> Ring" where
  "newRing orders =
     \<lparr>participations = map newParticipation orders, minerFeesToOrdersPercentage = 0,
      valid = True\<rparr>"

definition prevIndex :: "nat \<Rightarrow> nat \<Rightarrow> nat" where
  "prevIndex n i = (i + n - 1) mod n"

definition checkOrdersValid_step :: "World \<Rightarrow> Participation list \<Rightarrow> bool \<Rightarrow> nat \<Rightarrow> bool" where
  "checkOrdersValid_step w ps v i =
     (let p = orderOf w (ps ! i); prevP = orderOf w (ps ! prevIndex (length ps) i);
          v1 = (v \<and> ensure (OrderInfo.valid p) ''ring contains invalid order'');
          v2 = (v1 \<and> ensure (tokenS p = tokenB prevP) ''tokenS/tokenB mismatch'')
      in v2 \<and> ensure (tokenTypeS p = tokenTypeB prevP) ''tokenTypeS/tokenTypeB mismatch'')"

definition checkOrdersValid :: "World \<Rightarrow> Ring \<Rightarrow> Ring" where
  "checkOrdersValid w r =
     (let ps = participations r;
          v0 = (Ring.valid r \<and> ensure (1 < length ps \<and> length ps \<le> 8) ''invald ring size'')
      in r\<lparr>Ring.valid := foldl (checkOrdersValid_step w ps) v0 [0..<length ps]\<rparr>)"

definition checkForSubRings_inner :: "World \<Rightarrow> Participation list \<Rightarrow> nat \<Rightarrow> bool \<Rightarrow> nat \<Rightarrow> bool" where
  "checkForSubRings_inner w ps i v j =
     (v \<and> ensure (tokenS (orderOf w (ps ! i)) \<noteq> tokenS (orderOf w (ps ! j))) ''ring has sub-rings'')"

definition checkForSubRings :: "World \<Rightarrow> Ring \<Rightarrow> Ring" where
  "checkForSubRings w r =
     (let ps = participations r
      in r\<lparr>Ring.valid :=
             foldl (\<lambda>v i. foldl (checkForSubRings_inner w ps i) v [i + 1..<length ps])
               (Ring.valid r) [0..<length ps - 1]\<rparr>)"

subsection \<open>Fill computation\<close>

text \<open>
  \<open>setMaxFillAmounts\<close>; \<open>limitByFee\<close> is its inner block, which limits \<open>fillAmountS\<close> to the fee
  the owner can pay. The third component of the result is the final value of the local
  variable \<^verbatim>\<open>feeAmount\<close> (\<open>None\<close> where the block declaring it is not entered); the code
  does not store it, it is returned here so that it can be spoken about.
\<close>

definition limitByFee ::
  "Context \<Rightarrow> World \<Rightarrow> OrderInfo \<Rightarrow> Participation \<Rightarrow> error + (World \<times> Participation \<times> int option)"
where
  "limitByFee ctx w oi p =
     andThen (dividedToIntegerBy (OrderInfo.feeAmount oi * fillAmountS p) (amountS oi)) (\<lambda>feeAmount.
       if feeAmount > 0 then
         (case getSpendableFee ctx w (order p) of (w1, spendableFee) \<Rightarrow>
            if feeToken oi = tokenS oi \<and> fillAmountS p + feeAmount > ringSpendableS p then
              andThen (assert (spendableFee = ringSpendableS p)
                         ''spendableFee == spendableS when feeToken == tokenS'') (\<lambda>_.
              let totalAmount = amountS oi + OrderInfo.feeAmount oi in
              andThen (dividedToIntegerBy (ringSpendableS p * amountS oi) totalAmount) (\<lambda>fillS.
              andThen (dividedToIntegerBy (ringSpendableS p * OrderInfo.feeAmount oi) totalAmount) (\<lambda>fee.
                Inr (w1, p\<lparr>fillAmountS := fillS\<rparr>, Some fee))))
            else if feeAmount > spendableFee then
              andThen (dividedToIntegerBy (spendableFee * amountS oi) (OrderInfo.feeAmount oi)) (\<lambda>fillS.
                Inr (w1, p\<lparr>fillAmountS := fillS\<rparr>, Some spendableFee))
            else Inr (w1, p, Some feeAmount))
       else Inr (w, p, Some feeAmount))"

definition setMaxFillAmounts ::
  "Context \<Rightarrow> World \<Rightarrow> Participation \<Rightarrow> error + (World \<times> Participation \<times> int option)"
where
  "setMaxFillAmounts ctx w p =
     (let oi = orderOf w p;
          remainingS = amountS oi - filledAmountS oi
      in case getSpendableS ctx w (order p) of (w1, spendableS) \<Rightarrow>
         let p1 = p\<lparr>ringSpendableS := spendableS, fillAmountS := min spendableS remainingS\<rparr> in
         andThen
           (if \<not> P2P oi \<and>
               \<not> (feeToken oi = tokenB oi \<and> owner oi = tokenRecipient oi \<and>
                  OrderInfo.feeAmount oi \<le> amountB oi)
            then limitByFee ctx w1 oi p1
            else Inr (w1, p1, None))
           (\<lambda>(w2, p2, fee).
              andThen (dividedToIntegerBy (fillAmountS p2 * amountB oi) (amountS oi)) (\<lambda>fillB.
                Inr (w2, p2\<lparr>fillAmountB := fillB\<rparr>, fee))))"

text \<open>
  \<open>resize(i, smallest)\<close> reads participation \<open>i\<close> and shrinks its cyclic predecessor \<open>j\<close>.
\<close>

definition resize ::
  "Context \<Rightarrow> World \<Rightarrow> Participation list \<Rightarrow> nat \<Rightarrow> nat \<Rightarrow> error + (Participation list \<times> nat)"
where
  "resize ctx w ps i smallest =
     (let j = prevIndex (length ps) i;
          p = ps ! i;
          prevP = ps ! j
      in andThen
           (if tokenSFeePercentage (orderOf w p) > 0
            then andThen (dividedToIntegerBy (fillAmountS p * tokenSFeePercentage (orderOf w p))
                            (feePercentageBase ctx)) (\<lambda>feeAmountS. Inr (fillAmountS p - feeAmountS))
            else Inr (fillAmountS p))
           (\<lambda>postFeeFillAmountS.
              if fillAmountB prevP > postFeeFillAmountS then
                andThen (dividedToIntegerBy (postFeeFillAmountS * amountS (orderOf w prevP))
                           (amountB (orderOf w prevP))) (\<lambda>fillS.
                  Inr (ps[j := prevP\<lparr>fillAmountB := postFeeFillAmountS, fillAmountS := fillS\<rparr>], i))
              else Inr (ps, smallest)))"

text \<open>
  \<open>calculateFees(p, prevP)\<close> for \<open>p = ps ! i\<close> and \<open>prevP = ps ! j\<close>, in two parts: the fees
  (which may return false early) and the margin check. It writes to \<open>p\<close> only and reads
  \<open>prevP.fillAmountB\<close> after its writes, as the code does (the two are the same object in a
  ring of one).
\<close>

definition calculateFees_fees ::
  "Context \<Rightarrow> World \<Rightarrow> Participation \<Rightarrow> error + (World \<times> Participation \<times> bool)"
where
  "calculateFees_fees ctx w p =
     (let oi = orderOf w p in
      if P2P oi then
        andThen (dividedToIntegerBy (fillAmountS p * tokenSFeePercentage oi) (feePercentageBase ctx)) (\<lambda>feeS.
        andThen (dividedToIntegerBy (fillAmountB p * tokenBFeePercentage oi) (feePercentageBase ctx)) (\<lambda>feeB.
          Inr (w, p\<lparr>Participation.feeAmount := 0, feeAmountS := feeS, feeAmountB := feeB\<rparr>, True)))
      else
        andThen (dividedToIntegerBy (OrderInfo.feeAmount oi * fillAmountS p) (amountS oi)) (\<lambda>fee.
          let p1 = p\<lparr>Participation.feeAmount := fee, feeAmountS := 0, feeAmountB := 0\<rparr>;
              p2 = (if feeToken oi = tokenB oi \<and> owner oi = tokenRecipient oi \<and>
                       fillAmountB p1 \<ge> Participation.feeAmount p1
                    then p1\<lparr>feeAmountB := Participation.feeAmount p1, Participation.feeAmount := 0\<rparr>
                    else p1)
          in case getSpendableFee ctx w (order p) of (w1, spendableFee) \<Rightarrow>
             let p3 = p2\<lparr>ringSpendableFee := spendableFee\<rparr> in
             if Participation.feeAmount p3 > ringSpendableFee p3
             then Inr (w1, p3, False)
             else Inr (reserveAmountFee w1 (order p) (Participation.feeAmount p3), p3, True)))"

definition calculateFees_margin :: "Participation list \<Rightarrow> nat \<Rightarrow> nat \<Rightarrow> Participation list \<times> bool" where
  "calculateFees_margin ps i j =
     (let p = ps ! i; prevP = ps ! j in
      if fillAmountS p - feeAmountS p \<ge> fillAmountB prevP then
        (ps[i := p\<lparr>splitS := (fillAmountS p - feeAmountS p) - fillAmountB prevP,
                   fillAmountS := fillAmountB prevP + feeAmountS p\<rparr>],
         True)
      else (ps, False))"

definition calculateFees ::
  "Context \<Rightarrow> World \<Rightarrow> Participation list \<Rightarrow> nat \<Rightarrow> nat \<Rightarrow> error + (World \<times> Participation list \<times> bool)"
where
  "calculateFees ctx w ps i j =
     andThen (calculateFees_fees ctx w (ps ! i)) (\<lambda>(w1, p1, continue).
       if \<not> continue then Inr (w1, ps[i := p1], False)
       else case calculateFees_margin (ps[i := p1]) i j of (ps1, ok) \<Rightarrow> Inr (w1, ps1, ok))"

text \<open>A \<^verbatim>\<open>for\<close> loop whose body may throw: the first error ends the loop.\<close>

fun foldE :: "('s \<Rightarrow> 'a \<Rightarrow> error + 's) \<Rightarrow> 's \<Rightarrow> 'a list \<Rightarrow> error + 's" where
  "foldE f s [] = Inr s"
| "foldE f s (x # xs) = andThen (f s x) (\<lambda>s'. foldE f s' xs)"

definition setMaxFillAmounts_step ::
  "Context \<Rightarrow> World \<times> Participation list \<Rightarrow> nat \<Rightarrow> error + (World \<times> Participation list)"
where
  "setMaxFillAmounts_step ctx s i =
     (case s of (w, ps) \<Rightarrow>
        andThen (setMaxFillAmounts ctx w (ps ! i)) (\<lambda>(w1, p1, _). Inr (w1, ps[i := p1])))"

definition resize_step2 ::
  "Context \<Rightarrow> World \<Rightarrow> nat \<Rightarrow> Participation list \<Rightarrow> nat \<Rightarrow> error + Participation list"
where
  "resize_step2 ctx w smallest ps i = andThen (resize ctx w ps i smallest) (\<lambda>(ps1, _). Inr ps1)"

definition statusOk :: "string \<Rightarrow> bool" where
  "statusOk ESC = (ESC = ''0xa0'' \<or> ESC = ''0xa1'' \<or> ESC = ''0xa2'')"

definition dataOrDefault :: "string option \<Rightarrow> string \<Rightarrow> string" where
  "dataOrDefault d dflt = (case d of None \<Rightarrow> dflt | Some s \<Rightarrow> if s = [] then dflt else s)"

text \<open>The body of the fee loop of \<open>calculateFillAmountAndFee\<close>, for index \<open>i\<close>.\<close>

definition calculateFees_step :: "Context \<Rightarrow> World \<times> Ring \<Rightarrow> nat \<Rightarrow> error + (World \<times> Ring)" where
  "calculateFees_step ctx s i =
     (case s of (w, r) \<Rightarrow>
      let ps = participations r;
          j = prevIndex (length ps) i;
          oi = orderOf w (ps ! i);
          v1 = (if tokenTypeS oi = ERC1400 then
                  (case canSend ctx (tokenS oi) (owner oi) (tokenRecipient (orderOf w (ps ! j)))
                          (trancheS oi) (fillAmountS (ps ! i))
                          (dataOrDefault (transferDataS oi) ''0x0'') of
                     (ESC, destTranche) \<Rightarrow>
                       (Ring.valid r \<and> ensure (statusOk ESC) ''canSend is false'') \<and>
                       ensure (destTranche = trancheB (orderOf w (ps ! j))) ''wrong dest tranche'')
                else Ring.valid r)
      in andThen (calculateFees ctx w ps i j) (\<lambda>(w1, ps1, ok).
           Inr (w1,
                r\<lparr>participations := ps1,
                  Ring.valid := (v1 \<and> ensure ok ''ring cannot be settled''),
                  minerFeesToOrdersPercentage :=
                    (if waiveFeePercentage oi < 0
                     then minerFeesToOrdersPercentage r + - waiveFeePercentage oi
                     else minerFeesToOrdersPercentage r)\<rparr>)))"

definition calculateFillAmountAndFee :: "Context \<Rightarrow> World \<Rightarrow> Ring \<Rightarrow> error + (World \<times> Ring)" where
  "calculateFillAmountAndFee ctx w r =
     (if \<not> Ring.valid r then Inr (w, r)
      else
        let ringSize = length (participations r) in
        andThen (foldE (setMaxFillAmounts_step ctx) (w, participations r) [0..<ringSize]) (\<lambda>(w1, ps1).
        andThen (foldE (\<lambda>(ps, smallest) i. resize ctx w1 ps i smallest) (ps1, 0) (rev [0..<ringSize]))
          (\<lambda>(ps2, smallest).
        andThen (foldE (resize_step2 ctx w1 smallest) ps2 (rev [smallest..<ringSize])) (\<lambda>ps3.
        let w2 = foldl (\<lambda>w p. reserveAmountS w (order p) (fillAmountS p)) w1 ps3 in
        andThen (foldE (calculateFees_step ctx) (w2, r\<lparr>participations := ps3\<rparr>) [0..<ringSize])
          (\<lambda>(w3, r3).
        let r4 = r3\<lparr>Ring.valid :=
                      (Ring.valid r3 \<and>
                       ensure (minerFeesToOrdersPercentage r3 \<le> feePercentageBase ctx)
                         ''miner distributes more than 100% of its fees to order owners'')\<rparr>
        in Inr (foldl (\<lambda>w p. resetReservations w (order p)) w3 (participations r4), r4))))))"

subsection \<open>State adjustment\<close>

definition subAmount :: "nat \<Rightarrow> int \<Rightarrow> World \<Rightarrow> World" where
  "subAmount s a w =
     w\<lparr>spendables := (spendables w)(s := (spendables w s)\<lparr>amount := amount (spendables w s) - a\<rparr>)\<rparr>"

definition addFilled :: "nat \<Rightarrow> int \<Rightarrow> World \<Rightarrow> World" where
  "addFilled a d w =
     w\<lparr>orderHeap := (orderHeap w)(a := (orderHeap w a)\<lparr>filledAmountS := filledAmountS (orderHeap w a) + d\<rparr>)\<rparr>"

definition adjustOrderState :: "World \<Rightarrow> Participation \<Rightarrow> error + World" where
  "adjustOrderState w p =
     (let w1 = addFilled (order p) (fillAmountS p + splitS p) w;
          oi = orderOf w1 p;
          totalAmountS = fillAmountS p + splitS p;
          totalAmountFee = Participation.feeAmount p;
          w2 = subAmount (tokenSpendableFee oi) totalAmountFee (subAmount (tokenSpendableS oi) totalAmountS w1)
      in andThen
           (if truthy (brokerInterceptor oi) then
              (let w3 = subAmount (brokerSpendableFee oi) totalAmountFee
                          (subAmount (brokerSpendableS oi) totalAmountS w2)
               in andThen (assert (amount (spendables w3 (brokerSpendableS oi)) \<ge> 0)
                             ''brokerSpendableS should be positive'') (\<lambda>_.
                  andThen (assert (amount (spendables w3 (tokenSpendableFee oi)) \<ge> 0)
                             ''tokenSpendableFee should be positive'') (\<lambda>_. Inr w3)))
            else Inr w2)
           (\<lambda>w4.
              andThen (assert (amount (spendables w4 (tokenSpendableS oi)) \<ge> 0)
                         ''spendableS should be positive'') (\<lambda>_.
              andThen (assert (amount (spendables w4 (tokenSpendableFee oi)) \<ge> 0)
                         ''spendableFee should be positive'') (\<lambda>_.
              andThen (assert (filledAmountS (orderOf w4 p) \<le> amountS (orderOf w4 p))
                         ''filledAmountS <= amountS'') (\<lambda>_. Inr w4)))))"

definition adjustOrderStates :: "World \<Rightarrow> Ring \<Rightarrow> error + World" where
  "adjustOrderStates w r = foldE adjustOrderState w (participations r)"

definition revertOrderStats_step :: "World \<Rightarrow> Participation \<Rightarrow> error + World" where
  "revertOrderStats_step w p =
     (let w1 = addFilled (order p) (- (fillAmountS p + splitS p)) w
      in andThen (assert (filledAmountS (orderOf w1 p) \<ge> 0) ''p.order.filledAmountS >= 0'')
           (\<lambda>_. Inr w1))"

definition revertOrderStats :: "World \<Rightarrow> Ring \<Rightarrow> error + World" where
  "revertOrderStats w r = foldE revertOrderStats_step w (participations r)"

subsection \<open>Token transfers\<close>

definition zeroAddress :: string where
  "zeroAddress = ''0x'' @ replicate 64 (CHR ''0'')"

record TransferItem =
  t_token :: string
  t_from :: string
  t_to :: string
  t_amount :: int
  t_tokenType :: TokenType
  t_fromTranche :: string
  t_toTranche :: string
  t_data :: "string option"

definition addTokenTransfer ::
  "Context \<Rightarrow> TransferItem list \<Rightarrow> TokenType \<Rightarrow> string \<Rightarrow> string \<Rightarrow> string \<Rightarrow> string \<Rightarrow> int \<Rightarrow>
   string option \<Rightarrow> error + TransferItem list"
where
  "addTokenTransfer ctx transferItems tokenType fromTranche token from to amt data =
     (if from \<noteq> to \<and> amt > 0 then
        (case tokenType of
           ERC20 \<Rightarrow>
             Inr (transferItems @
                  [\<lparr>t_token = token, t_from = from, t_to = to, t_amount = amt, t_tokenType = tokenType,
                    t_fromTranche = zeroAddress, t_toTranche = zeroAddress, t_data = None\<rparr>])
         | ERC1400 \<Rightarrow>
             (let tranferData = dataOrDefault data ''0x'' in
              case canSend ctx token from to fromTranche amt tranferData of (ESC, destTranche) \<Rightarrow>
                andThen (assert (statusOk ESC) ''Cannot transfer ERC1400 tokens'') (\<lambda>_.
                  Inr (transferItems @
                       [\<lparr>t_token = token, t_from = from, t_to = to, t_amount = amt,
                         t_tokenType = tokenType, t_fromTranche = fromTranche,
                         t_toTranche = destTranche, t_data = Some tranferData\<rparr>]))))
      else Inr transferItems)"

text \<open>The margin paid out for a participation (the local \<^verbatim>\<open>margin\<close> of \<open>transferTokens\<close>).\<close>

definition margin :: "World \<Rightarrow> Participation \<Rightarrow> int" where
  "margin w p = (if tokenTypeS (orderOf w p) = ERC1400 then 0 else splitS p)"

text \<open>
  The body of the loop of \<open>transferTokens\<close> for index \<open>i\<close>; \<open>feeRecipient\<close> is
  \<^verbatim>\<open>mining.feeRecipient\<close>.
\<close>

definition transferTokens_step ::
  "Context \<Rightarrow> World \<Rightarrow> string \<Rightarrow> Participation list \<Rightarrow> TransferItem list \<Rightarrow> nat \<Rightarrow>
   error + TransferItem list"
where
  "transferTokens_step ctx w feeRecipient ps transferItems i =
     (let p = ps ! i;
          prevP = ps ! prevIndex (length ps) i;
          oi = orderOf w p;
          buyerFeeAmountAfterRebateB = feeAmountB prevP - rebateB prevP
      in andThen (assert (buyerFeeAmountAfterRebateB \<ge> 0) ''buyerFeeAmountAfterRebateB >= 0'') (\<lambda>_.
         let amountSToBuyer = fillAmountS p - feeAmountS p - buyerFeeAmountAfterRebateB;
             amountSToFeeHolder0 = (feeAmountS p - rebateS p) + buyerFeeAmountAfterRebateB;
             amountFeeToFeeHolder0 = Participation.feeAmount p - rebateFee p;
             amountSToFeeHolder =
               (if tokenS oi = feeToken oi then amountSToFeeHolder0 + amountFeeToFeeHolder0
                else amountSToFeeHolder0);
             amountFeeToFeeHolder = (if tokenS oi = feeToken oi then 0 else amountFeeToFeeHolder0)
         in
         andThen (addTokenTransfer ctx transferItems (tokenTypeS oi) (trancheS oi) (tokenS oi) (owner oi)
                    (tokenRecipient (orderOf w prevP)) amountSToBuyer (transferDataS oi)) (\<lambda>items1.
         andThen (addTokenTransfer ctx items1 (tokenTypeS oi) (trancheS oi) (tokenS oi) (owner oi)
                    (feeHolder ctx) amountSToFeeHolder (transferDataS oi)) (\<lambda>items2.
         andThen (addTokenTransfer ctx items2 (tokenTypeFee oi) (trancheFee oi) (feeToken oi) (owner oi)
                    (feeHolder ctx) amountFeeToFeeHolder (Some ''0x'')) (\<lambda>items3.
         addTokenTransfer ctx items3 (tokenTypeS oi) (trancheS oi) (tokenS oi) (owner oi)
           feeRecipient (margin w p) (transferDataS oi))))))"

definition transferTokens ::
  "Context \<Rightarrow> World \<Rightarrow> string \<Rightarrow> Participation list \<Rightarrow> error + TransferItem list"
where
  "transferTokens ctx w feeRecipient ps =
     foldE (transferTokens_step ctx w feeRecipient ps) [] [0..<length ps]"

section \<open>BalanceBook\<close>

text \<open>
  \<^verbatim>\<open>balances[owner][token][tranche]\<close>: three levels of JavaScript objects, whose keys
  \<^verbatim>\<open>Object.keys\<close> lists in insertion order (the keys are hexadecimal address strings). Each
  level is an association list with distinct keys, a new key going to the end.
\<close>

type_synonym BalanceBook = "(string \<times> (string \<times> (string \<times> int) list) list) list"

fun upsert :: "'k \<Rightarrow> 'v \<Rightarrow> ('k \<times> 'v) list \<Rightarrow> ('k \<times> 'v) list" where
  "upsert k v [] = [(k, v)]"
| "upsert k v ((k', v') # kvs) = (if k = k' then (k, v) # kvs else (k', v') # upsert k v kvs)"

definition getOr :: "'v \<Rightarrow> ('k \<times> 'v) list \<Rightarrow> 'k \<Rightarrow> 'v" where
  "getOr d kvs k = (case map_of kvs k of None \<Rightarrow> d | Some v \<Rightarrow> v)"

definition isBalanceKnown :: "BalanceBook \<Rightarrow> string \<Rightarrow> string \<Rightarrow> string \<Rightarrow> bool" where
  "isBalanceKnown balances ownr token tranche =
     (case map_of balances ownr of
        None \<Rightarrow> False
      | Some tokens \<Rightarrow>
          (case map_of tokens token of
             None \<Rightarrow> False
           | Some tranches \<Rightarrow> map_of tranches tranche \<noteq> None))"

definition getBalance :: "BalanceBook \<Rightarrow> string \<Rightarrow> string \<Rightarrow> string \<Rightarrow> int" where
  "getBalance balances ownr token tranche =
     (if isBalanceKnown balances ownr token tranche
      then the (map_of (the (map_of (the (map_of balances ownr)) token)) tranche)
      else 0)"

definition addBalance :: "string \<Rightarrow> string \<Rightarrow> string \<Rightarrow> int \<Rightarrow> BalanceBook \<Rightarrow> BalanceBook" where
  "addBalance ownr token tranche amt balances =
     (let tokens = getOr [] balances ownr;
          tranches = getOr [] tokens token;
          old = getOr 0 tranches tranche
      in upsert ownr (upsert token (upsert tranche (old + amt) tranches) tokens) balances)"

definition getAllTokens :: "BalanceBook \<Rightarrow> string list" where
  "getAllTokens balances = concat (map (\<lambda>(ownr, tokens). map fst tokens) balances)"

definition getAllBalances :: "BalanceBook \<Rightarrow> (string \<times> string \<times> string \<times> int) list" where
  "getAllBalances balances =
     concat (map (\<lambda>(ownr, tokens).
       concat (map (\<lambda>(token, tranches).
         map (\<lambda>(tranche, amt). (ownr, token, tranche, amt)) tranches) tokens)) balances)"

section \<open>ProtocolSimulator\<close>

subsection \<open>Filled amounts and cancellation\<close>

definition cancelledValue :: int where
  "cancelledValue = 2 ^ 256 - 1"

text \<open>
  \<open>batchGetFilledAndCheckCancelled\<close>. The packed query only feeds the contract call; its answer
  \<open>fills\<close> is a parameter. The loop reads \<^verbatim>\<open>fills[i]\<close> for the \<open>i\<close>-th order: where the answer
  is too short the entry is \<^verbatim>\<open>undefined\<close>, which is no integer, and the model stops with
  \<open>TypeError\<close>.
\<close>

definition setFilled :: "int \<Rightarrow> OrderInfo \<Rightarrow> OrderInfo" where
  "setFilled fill oi =
     oi\<lparr>filledAmountS := fill,
        OrderInfo.valid := (OrderInfo.valid oi \<and> ensure (fill \<noteq> cancelledValue) ''order is cancelled'')\<rparr>"

fun batchGetFilledAndCheckCancelled :: "int list \<Rightarrow> World \<Rightarrow> nat list \<Rightarrow> error + World" where
  "batchGetFilledAndCheckCancelled fills w [] = Inr w"
| "batchGetFilledAndCheckCancelled [] w (a # orders) = Inl TypeError"
| "batchGetFilledAndCheckCancelled (fill # fills) w (a # orders) =
     batchGetFilledAndCheckCancelled fills
       (w\<lparr>orderHeap := (orderHeap w)(a := setFilled fill (orderHeap w a))\<rparr>) orders"

subsection \<open>Final validation\<close>

record SimulatorReport =
  transferItems :: "TransferItem list"
  balancesAfter :: BalanceBook

definition amountTransferred :: "TransferItem list \<Rightarrow> string \<Rightarrow> string \<Rightarrow> string \<Rightarrow> int" where
  "amountTransferred items ownr token tranche =
     sum_list (map t_amount
       (filter (\<lambda>t. t_from t = ownr \<and> t_token t = token \<and> t_fromTranche t = tranche) items))"

definition validateRings_spendables :: "World \<Rightarrow> SimulatorReport \<Rightarrow> unit \<Rightarrow> nat \<Rightarrow> error + unit" where
  "validateRings_spendables w report u a =
     (let oi = orderHeap w a;
          spS = spendables w (tokenSpendableS oi);
          spFee = spendables w (tokenSpendableFee oi)
      in andThen
           (if initialized spS
            then assert (initialAmount spS - amount spS \<ge>
                         amountTransferred (transferItems report) (owner oi) (tokenS oi) (trancheS oi))
                   ''amountSpentS >= amountTransferredS''
            else Inr ())
           (\<lambda>_. if initialized spFee
                 then assert (initialAmount spFee - amount spFee \<ge>
                              amountTransferred (transferItems report) (owner oi) (feeToken oi) zeroAddress)
                        ''amountSpentFee >= amountTransferredFee''
                 else Inr ()))"

definition validateRings_allOrNone :: "World \<Rightarrow> unit \<Rightarrow> nat \<Rightarrow> error + unit" where
  "validateRings_allOrNone w u a =
     (let oi = orderHeap w a
      in if allOrNone oi
         then assert (filledAmountS oi = 0 \<or> filledAmountS oi = amountS oi)
                ''allOrNone orders should either be completely filled or not at all.''
         else Inr ())"

definition validateRings :: "World \<Rightarrow> nat list \<Rightarrow> SimulatorReport \<Rightarrow> error + unit" where
  "validateRings w orders report =
     andThen (foldE (\<lambda>u (ownr, token, tranche, amt).
                       assert (amt \<ge> 0) ''can't sell more tokens than the owner owns'')
                () (getAllBalances (balancesAfter report))) (\<lambda>_.
     andThen (foldE (validateRings_spendables w report) () orders) (\<lambda>_.
     foldE (validateRings_allOrNone w) () orders))"

subsection \<open>Settling the rings\<close>

text \<open>
  The loop of \<open>simulateAndReport\<close> over the rings, which precedes \<open>checkRings\<close>: the two
  checks, the fill computation and, for a ring still valid, \<open>adjustOrderStates\<close>.
\<close>

definition simulate_ring :: "Context \<Rightarrow> World \<times> Ring list \<Rightarrow> Ring \<Rightarrow> error + (World \<times> Ring list)" where
  "simulate_ring ctx s ring =
     (case s of (w, rs) \<Rightarrow>
        andThen (calculateFillAmountAndFee ctx w (checkForSubRings w (checkOrdersValid w ring)))
          (\<lambda>(w1, r1).
             if Ring.valid r1
             then andThen (adjustOrderStates w1 r1) (\<lambda>w2. Inr (w2, rs @ [r1]))
             else Inr (w1, rs @ [r1])))"

definition simulate_rings :: "Context \<Rightarrow> World \<Rightarrow> Ring list \<Rightarrow> error + (World \<times> Ring list)" where
  "simulate_rings ctx w rings = foldE (simulate_ring ctx) (w, []) rings"

subsection \<open>The all-or-none fixed point\<close>

definition checkRings_order :: "World \<times> bool \<Rightarrow> nat \<Rightarrow> World \<times> bool" where
  "checkRings_order s a =
     (case s of (w, reevaluateRings) \<Rightarrow>
        let oi = orderHeap w a in
        if allOrNone oi then
          (let validBefore = OrderInfo.valid oi;
               oi1 = validateAllOrNone oi
           in (w\<lparr>orderHeap := (orderHeap w)(a := oi1)\<rparr>,
               reevaluateRings \<or> (validBefore \<noteq> OrderInfo.valid oi1)))
        else (w, reevaluateRings))"

definition checkRings_ring :: "World \<times> Ring list \<Rightarrow> Ring \<Rightarrow> error + (World \<times> Ring list)" where
  "checkRings_ring s r =
     (case s of (w, rs) \<Rightarrow>
        let validBefore = Ring.valid r;
            r1 = checkOrdersValid w r
        in if \<not> Ring.valid r1 \<and> validBefore
           then andThen (revertOrderStats w r1) (\<lambda>w1. Inr (w1, rs @ [r1]))
           else Inr (w, rs @ [r1]))"

text \<open>The all-or-none orders that are still valid, and how many of them an order array holds.\<close>

definition pending :: "World \<Rightarrow> nat \<Rightarrow> bool" where
  "pending w a = (OrderInfo.valid (orderHeap w a) \<and> allOrNone (orderHeap w a))"

definition validCount :: "World \<Rightarrow> nat list \<Rightarrow> nat" where
  "validCount w orders = length (filter (pending w) orders)"

text \<open>
  \<open>checkRings\<close>: the \<^verbatim>\<open>while (reevaluateRings)\<close> loop. One call is one execution of the loop
  body: the pass over the orders, then, if an order's validity changed, the pass over the rings
  and the next iteration. A failed assertion of \<open>revertOrderStats\<close> ends the loop with the
  error. The second component of the result counts the executions of the body, which the code
  does not do. The measure is the number of valid all-or-none orders.
\<close>

function checkRings ::
  "World \<Rightarrow> nat list \<Rightarrow> Ring list \<Rightarrow> (error + (World \<times> Ring list)) \<times> nat"
where
  "checkRings w orders rings =
     (case foldl checkRings_order (w, False) orders of
        (w1, reevaluateRings) \<Rightarrow>
          if reevaluateRings then
            (case foldE checkRings_ring (w1, []) rings of
               Inl e \<Rightarrow> (Inl e, 1)
             | Inr (w2, rings2) \<Rightarrow>
                 (case checkRings w2 orders rings2 of (res, n) \<Rightarrow> (res, Suc n)))
          else (Inr (w1, rings), 1))"
  by pat_completeness auto

section \<open>Example orders and rings\<close>

definition exampleOrder :: "string \<Rightarrow> string \<Rightarrow> string \<Rightarrow> int \<Rightarrow> int \<Rightarrow> nat \<Rightarrow> OrderInfo" where
  "exampleOrder ownr tS tB aS aB sp =
     \<lparr>owner = ownr, tokenRecipient = ownr, broker = ownr, brokerInterceptor = None,
      walletAddr = None, tokenS = tS, tokenB = tB, feeToken = ''LRC'',
      amountS = aS, amountB = aB, feeAmount = 0,
      trancheS = zeroAddress, trancheB = zeroAddress, trancheFee = zeroAddress,
      tokenTypeS = ERC20, tokenTypeB = ERC20, tokenTypeFee = ERC20,
      transferDataS = None, allOrNone = False, P2P = False,
      tokenSFeePercentage = 0, tokenBFeePercentage = 0, waiveFeePercentage = 0,
      valid = True, filledAmountS = 0,
      tokenSpendableS = sp, tokenSpendableFee = sp + 1,
      brokerSpendableS = sp + 2, brokerSpendableFee = sp + 3\<rparr>"

definition exampleSpendable :: "int \<Rightarrow> Spendable" where
  "exampleSpendable a = \<lparr>initialized = True, amount = a, reserved = 0, initialAmount = a\<rparr>"

definition exampleContext :: Context where
  "exampleContext =
     \<lparr>feePercentageBase = 1000, feeHolder = ''feeHolder'',
      canSend = (\<lambda>token from to fromTranche amt data. (''0xa1'', fromTranche)),
      chainSpendable = (\<lambda>tokenType token tranche ownr. 10000),
      brokerAllowance = (\<lambda>token ownr brokr interceptor. 10000)\<rparr>"

text \<open>
  Scenario S2 of the spec: A sells 1100 X for 1000 Y, B sells 1000 Y for 1000 X; the margin of
  100 X goes to the miner.
\<close>

definition marginWorld :: World where
  "marginWorld =
     \<lparr>orderHeap = (\<lambda>a. if a = 0 then exampleOrder ''A'' ''X'' ''Y'' 1100 1000 0
                        else exampleOrder ''B'' ''Y'' ''X'' 1000 1000 4),
      spendables = (\<lambda>s. exampleSpendable 10000)\<rparr>"

definition marginRing :: Ring where
  "marginRing = checkForSubRings marginWorld (checkOrdersValid marginWorld (newRing [0, 1]))"

definition marginResult :: Ring where
  "marginResult =
     \<lparr>participations =
        [\<lparr>order = 0, splitS = 100, feeAmount = 0, feeAmountS = 0,
            feeAmountB = 0, rebateFee = 0, rebateS = 0, rebateB = 0,
            fillAmountS = 1000, fillAmountB = 1000, ringSpendableS = 10000,
            ringSpendableFee = 10000\<rparr>,
         \<lparr>order = 1, splitS = 0, feeAmount = 0, feeAmountS = 0,
            feeAmountB = 0, rebateFee = 0, rebateS = 0, rebateB = 0,
            fillAmountS = 1000, fillAmountB = 1000, ringSpendableS = 10000,
            ringSpendableFee = 10000\<rparr>],
        minerFeesToOrdersPercentage = 0, valid = True\<rparr>"

text \<open>A ring of one order: \<open>checkOrdersValid\<close> rejects its size.\<close>

definition loneRing :: Ring where
  "loneRing = checkForSubRings marginWorld (checkOrdersValid marginWorld (newRing [0]))"

text \<open>
  Scenario S3 of the spec: A sells 1000 LRC with a fee of 100 LRC (\<open>feeToken = tokenS\<close>, one
  spendable for both) and can spend 600; B takes the other side.
\<close>

definition feeWorld :: World where
  "feeWorld =
     \<lparr>orderHeap = (\<lambda>a. if a = 0
                        then (exampleOrder ''A'' ''LRC'' ''Y'' 1000 1000 0)
                               \<lparr>OrderInfo.feeAmount := 100, tokenSpendableFee := 0\<rparr>
                        else exampleOrder ''B'' ''Y'' ''LRC'' 1000 1000 4),
      spendables = (\<lambda>s. exampleSpendable 600)\<rparr>"


text \<open>
  Scenario S2 with a security token: A sells the ERC1400 token SEC from tranche 0xBEEF.
\<close>

definition securityWorld :: World where
  "securityWorld =
     \<lparr>orderHeap = (\<lambda>a. if a = 0
                        then (exampleOrder ''A'' ''SEC'' ''Y'' 1100 1000 0)
                               \<lparr>tokenTypeS := ERC1400, trancheS := ''0xBEEF''\<rparr>
                        else (exampleOrder ''B'' ''Y'' ''SEC'' 1000 1000 4)
                               \<lparr>tokenTypeB := ERC1400, trancheB := ''0xBEEF''\<rparr>),
      spendables = (\<lambda>s. exampleSpendable 10000)\<rparr>"

text \<open>Two owners write a balance in the same token.\<close>

definition twoHolders :: "(string \<times> string \<times> string \<times> int) list" where
  "twoHolders = [(''alice'', ''X'', zeroAddress, 1), (''bob'', ''X'', zeroAddress, 2)]"

text \<open>
  Two all-or-none orders in one ring: A sells 500 X for 500 Y, B sells 1000 Y for 1000 X, so
  that B can only be half filled.
\<close>

definition aonWorld :: World where
  "aonWorld =
     \<lparr>orderHeap = (\<lambda>a. if a = 0
                        then (exampleOrder ''A'' ''X'' ''Y'' 500 500 0)\<lparr>allOrNone := True\<rparr>
                        else (exampleOrder ''B'' ''Y'' ''X'' 1000 1000 4)\<lparr>allOrNone := True\<rparr>),
      spendables = (\<lambda>s. exampleSpendable 10000)\<rparr>"

text \<open>Two all-or-none orders that fill each other completely.\<close>

definition fullWorld :: World where
  "fullWorld =
     \<lparr>orderHeap = (\<lambda>a. if a = 0
                        then (exampleOrder ''A'' ''X'' ''Y'' 1000 1000 0)\<lparr>allOrNone := True\<rparr>
                        else (exampleOrder ''B'' ''Y'' ''X'' 1000 1000 4)\<lparr>allOrNone := True\<rparr>),
      spendables = (\<lambda>s. exampleSpendable 10000)\<rparr>"

text \<open>
  An all-or-none order A that was cancelled on chain, in a ring with B: the batch is answered
  with the sentinel for A.
\<close>

definition cancelWorld :: World where
  "cancelWorld =
     \<lparr>orderHeap = (\<lambda>a. if a = 0
                        then (exampleOrder ''A'' ''X'' ''Y'' 1000 1000 0)\<lparr>allOrNone := True\<rparr>
                        else exampleOrder ''B'' ''Y'' ''X'' 1000 1000 4),
      spendables = (\<lambda>s. exampleSpendable 10000)\<rparr>"

section \<open>Auxiliary definitions for the proofs\<close>

text \<open>
  What \<open>adjustOrderStates\<close> adds to the \<open>filledAmountS\<close> of the order at address \<open>a\<close> (an order
  may stand in several participations), and a heap with every \<open>filledAmountS\<close> shifted.
\<close>

definition filledDelta :: "Participation list \<Rightarrow> nat \<Rightarrow> int" where
  "filledDelta ps a = sum_list (map (\<lambda>p. fillAmountS p + splitS p) (filter (\<lambda>p. order p = a) ps))"

definition shiftFilled :: "(nat \<Rightarrow> int) \<Rightarrow> (nat \<Rightarrow> OrderInfo) \<Rightarrow> nat \<Rightarrow> OrderInfo" where
  "shiftFilled d h a = (h a)\<lparr>filledAmountS := filledAmountS (h a) + d a\<rparr>"

text \<open>
  The book that a sequence of \<open>addBalance\<close> calls builds from the empty one, the tokens an owner
  holds in a book, and the shape every such book has (distinct keys at the two outer levels).
\<close>

definition bookOf :: "(string \<times> string \<times> string \<times> int) list \<Rightarrow> BalanceBook" where
  "bookOf writes = foldl (\<lambda>b (ownr, token, tranche, amt). addBalance ownr token tranche amt b) [] writes"

definition tokensOf :: "BalanceBook \<Rightarrow> string \<Rightarrow> string set" where
  "tokensOf b ownr = fst ` set (getOr [] b ownr)"

definition wfBook :: "BalanceBook \<Rightarrow> bool" where
  "wfBook b = (distinct (map fst b) \<and> (\<forall>kv \<in> set b. distinct (map fst (snd kv))))"

text \<open>
  An all-or-none order that is valid is completely filled (\<open>validateAllOrNone\<close> would leave it
  valid).
\<close>

definition filled :: "World \<Rightarrow> nat \<Rightarrow> bool" where
  "filled w a = (pending w a \<longrightarrow> amountS (orderHeap w a) \<le> filledAmountS (orderHeap w a))"

section \<open>Basic lemmas\<close>

lemma andThen_Inr [simp]: "andThen (Inr x) f = f x"
  by (simp add: andThen_def)

lemma andThen_Inl [simp]: "andThen (Inl e) f = Inl e"
  by (simp add: andThen_def)

lemma andThen_eq_Inr: "(andThen m f = Inr y) = (\<exists>x. m = Inr x \<and> f x = Inr y)"
  by (cases m) simp_all

lemma foldE_invariant:
  assumes "foldE f s xs = Inr s'" and "P s"
    and "\<And>a x b. P a \<Longrightarrow> f a x = Inr b \<Longrightarrow> P b"
  shows "P s'"
  using assms(1,2)
proof (induction xs arbitrary: s)
  case Nil
  then show ?case by simp
next
  case (Cons x xs)
  from Cons.prems(1) obtain s1 where "f s x = Inr s1" and "foldE f s1 xs = Inr s'"
    by (auto simp: andThen_eq_Inr)
  with Cons.IH Cons.prems(2) assms(3) show ?case by blast
qed

text \<open>
  Evaluating a concrete run: the continuation of \<open>andThen\<close> is entered only once its first
  argument is a value, and the definitions of the model are unfolded.
\<close>

lemma andThen_weak_cong: "m = m' \<Longrightarrow> andThen m f = andThen m' f"
  by simp

lemmas run_simps =
  simulate_rings_def simulate_ring_def calculateFillAmountAndFee_def checkForSubRings_def
  checkOrdersValid_def checkOrdersValid_step_def checkForSubRings_inner_def ensure_def
  prevIndex_def orderOf_def newRing_def newParticipation_def setMaxFillAmounts_step_def
  setMaxFillAmounts_def limitByFee_def getSpendableS_def getSpendableFee_def getSpendable_def
  initSpendable_def live_def dividedToIntegerBy_def truncDiv_def resize_def resize_step2_def
  reserveAmountS_def reserveAmountFee_def resetReservations_def addReserved_def clearReserved_def
  calculateFees_step_def calculateFees_def calculateFees_fees_def calculateFees_margin_def
  adjustOrderStates_def adjustOrderState_def addFilled_def subAmount_def assert_def
  checkRings_order_def validateAllOrNone_def checkRings_ring_def
  revertOrderStats_def revertOrderStats_step_def
  validateRings_def validateRings_spendables_def validateRings_allOrNone_def
  amountTransferred_def getAllBalances_def
  exampleOrder_def exampleSpendable_def exampleContext_def validCount_def pending_def
  Let_def

section \<open>Termination of the all-or-none fixed point\<close>

lemma checkRings_order_pending:
  assumes "checkRings_order (w, b) a = (w1, b1)"
  shows "(\<forall>x. pending w1 x \<longrightarrow> pending w x) \<and> (b1 \<longrightarrow> b \<or> (pending w a \<and> \<not> pending w1 a))"
  using assms
  by (auto simp: checkRings_order_def pending_def validateAllOrNone_def Let_def split: if_splits)

lemma checkRings_orders_pending:
  assumes "foldl checkRings_order (w, b) orders = (w1, b1)"
  shows "(\<forall>x. pending w1 x \<longrightarrow> pending w x) \<and>
         (b1 \<longrightarrow> b \<or> (\<exists>a \<in> set orders. pending w a \<and> \<not> pending w1 a))"
  using assms
proof (induction orders arbitrary: w b)
  case Nil
  then show ?case by simp
next
  case (Cons a orders)
  obtain w2 b2 where s: "checkRings_order (w, b) a = (w2, b2)"
    by (cases "checkRings_order (w, b) a")
  with Cons.prems have l: "foldl checkRings_order (w2, b2) orders = (w1, b1)" by simp
  from Cons.IH [OF l] checkRings_order_pending [OF s] show ?case
    by (metis list.set_intros(1) list.set_intros(2))
qed

lemma filter_length_le:
  assumes "\<forall>x \<in> set xs. Q x \<longrightarrow> P x"
  shows "length (filter Q xs) \<le> length (filter P xs)"
  using assms by (induction xs) auto

lemma filter_length_less:
  assumes "\<forall>x \<in> set xs. Q x \<longrightarrow> P x" and "\<exists>x \<in> set xs. P x \<and> \<not> Q x"
  shows "length (filter Q xs) < length (filter P xs)"
  using assms
proof (induction xs)
  case Nil
  then show ?case by simp
next
  case (Cons x xs)
  show ?case
  proof (cases "P x \<and> \<not> Q x")
    case True
    from Cons.prems(1) have "length (filter Q xs) \<le> length (filter P xs)"
      by (intro filter_length_le) simp
    with True show ?thesis by simp
  next
    case False
    with Cons.prems have "\<exists>x \<in> set xs. P x \<and> \<not> Q x" by auto
    with Cons.IH Cons.prems(1) have "length (filter Q xs) < length (filter P xs)" by simp
    with False Cons.prems(1) show ?thesis by auto
  qed
qed

lemma checkRings_orders_less:
  assumes "foldl checkRings_order (w, False) orders = (w1, True)"
  shows "validCount w1 orders < validCount w orders"
  unfolding validCount_def
  using checkRings_orders_pending [OF assms] by (intro filter_length_less) auto

lemma checkRings_orders_le:
  assumes "foldl checkRings_order (w, b) orders = (w1, b1)"
  shows "validCount w1 orders \<le> validCount w orders"
  unfolding validCount_def
  using checkRings_orders_pending [OF assms] by (intro filter_length_le) auto

lemma addFilled_pending: "pending (addFilled a d w) = pending w"
  by (rule ext) (simp add: addFilled_def pending_def)

lemma revertOrderStats_step_pending:
  assumes "revertOrderStats_step w p = Inr w1"
  shows "pending w1 = pending w"
proof -
  from assms have "w1 = addFilled (order p) (- (fillAmountS p + splitS p)) w"
    by (simp add: revertOrderStats_step_def Let_def andThen_eq_Inr)
  then show ?thesis by (simp add: addFilled_pending)
qed

lemma revertOrderStats_pending:
  assumes "revertOrderStats w r = Inr w1"
  shows "pending w1 = pending w"
  by (rule foldE_invariant [OF assms [unfolded revertOrderStats_def],
        where P = "\<lambda>s. pending s = pending w"])
     (simp_all add: revertOrderStats_step_pending)

lemma checkRings_ring_pending:
  assumes "checkRings_ring (w, rs) r = Inr (w1, rs1)"
  shows "pending w1 = pending w"
  using assms
  by (auto simp: checkRings_ring_def Let_def andThen_eq_Inr split: if_splits
           dest: revertOrderStats_pending)

lemma checkRings_rings_pending:
  assumes "foldE checkRings_ring (w, []) rings = Inr (w1, rings1)"
  shows "pending w1 = pending w"
proof -
  have "pending (fst (w1, rings1)) = pending w"
    by (rule foldE_invariant [OF assms, where P = "\<lambda>s. pending (fst s) = pending w"])
       (auto dest: checkRings_ring_pending)
  then show ?thesis by simp
qed

lemma checkRings_rings_validCount:
  assumes "foldE checkRings_ring (w, []) rings = Inr (w1, rings1)"
  shows "validCount w1 orders = validCount w orders"
  by (simp add: validCount_def checkRings_rings_pending [OF assms])

lemma checkRings_decreases:
  assumes "(w1, True) = foldl checkRings_order (w, False) orders"
    and "foldE checkRings_ring (w1, []) rings = Inr (w2, rings2)"
  shows "validCount w2 orders < validCount w orders"
  using checkRings_orders_less [OF assms(1) [symmetric]] checkRings_rings_validCount [OF assms(2)]
  by simp

text \<open>
  \<open>checkRings\<close> terminates: an iteration that continues leaves fewer valid all-or-none orders.
\<close>

termination checkRings
  apply (relation "measure (\<lambda>(w, orders, rings). validCount w orders)")
   apply simp
  apply (auto elim: checkRings_decreases)
  done

section \<open>Ring closure\<close>

lemma calculateFees_fees_frame:
  assumes "calculateFees_fees ctx w p = Inr (w', p', ok)"
  shows "fillAmountS p' = fillAmountS p \<and> fillAmountB p' = fillAmountB p \<and> order p' = order p"
proof (cases "P2P (orderOf w p)")
  case True
  with assms show ?thesis
    by (auto simp: calculateFees_fees_def andThen_eq_Inr Let_def)
next
  case False
  obtain w1 sf where g: "getSpendableFee ctx w (order p) = (w1, sf)"
    by (cases "getSpendableFee ctx w (order p)")
  from assms False g show ?thesis
    by (auto simp: calculateFees_fees_def andThen_eq_Inr Let_def split: if_splits)
qed

lemma nth_update_field:
  assumes "f x = f (ps ! i)"
  shows "f (ps[i := x] ! k) = f (ps ! k)"
proof (cases "i < length ps")
  case True
  then show ?thesis using assms by (cases "k = i") simp_all
next
  case False
  then show ?thesis by (simp add: list_update_beyond)
qed

lemma calculateFees_margin_frame:
  assumes "calculateFees_margin ps i j = (ps', ok)"
  shows "length ps' = length ps"
    and "k \<noteq> i \<Longrightarrow> ps' ! k = ps ! k"
    and "fillAmountB (ps' ! k) = fillAmountB (ps ! k)"
    and "order (ps' ! k) = order (ps ! k)"
    and "feeAmountS (ps' ! k) = feeAmountS (ps ! k)"
  using assms
  by (auto simp: calculateFees_margin_def Let_def nth_update_field split: if_splits)

lemma calculateFees_margin_closure:
  assumes "calculateFees_margin ps i j = (ps', True)" and "i < length ps"
  shows "fillAmountS (ps' ! i) - feeAmountS (ps' ! i) = fillAmountB (ps ! j)"
  using assms
  by (auto simp: calculateFees_margin_def Let_def split: if_splits)

lemma calculateFees_cases:
  assumes "calculateFees ctx w ps i j = Inr (w', ps', ok)"
  obtains w1 p1 where "calculateFees_fees ctx w (ps ! i) = Inr (w1, p1, False)"
      and "ps' = ps[i := p1]" and "\<not> ok"
  | w1 p1 where "calculateFees_fees ctx w (ps ! i) = Inr (w1, p1, True)"
      and "calculateFees_margin (ps[i := p1]) i j = (ps', ok)"
proof -
  obtain w1 p1 c where f: "calculateFees_fees ctx w (ps ! i) = Inr (w1, p1, c)"
    using assms by (cases "calculateFees_fees ctx w (ps ! i)") (auto simp: calculateFees_def)
  obtain ps1 ok1 where m: "calculateFees_margin (ps[i := p1]) i j = (ps1, ok1)"
    by (cases "calculateFees_margin (ps[i := p1]) i j")
  show thesis
  proof (cases c)
    case True
    with assms f m have "ps1 = ps'" "ok1 = ok" by (simp_all add: calculateFees_def)
    with f m True that(2) show thesis by simp
  next
    case False
    with assms f have "ps' = ps[i := p1]" "\<not> ok" by (simp_all add: calculateFees_def)
    with f False that(1) show thesis by simp
  qed
qed

lemma calculateFees_frame:
  assumes "calculateFees ctx w ps i j = Inr (w', ps', ok)"
  shows "length ps' = length ps"
    and "k \<noteq> i \<Longrightarrow> ps' ! k = ps ! k"
    and "fillAmountB (ps' ! k) = fillAmountB (ps ! k)"
    and "order (ps' ! k) = order (ps ! k)"
proof -
  have "length ps' = length ps \<and> (k \<noteq> i \<longrightarrow> ps' ! k = ps ! k) \<and>
        fillAmountB (ps' ! k) = fillAmountB (ps ! k) \<and> order (ps' ! k) = order (ps ! k)"
  proof (rule calculateFees_cases [OF assms])
    fix w1 p1
    assume f: "calculateFees_fees ctx w (ps ! i) = Inr (w1, p1, False)" and e: "ps' = ps[i := p1]"
    from calculateFees_fees_frame [OF f] e show ?thesis
      by (simp add: nth_update_field)
  next
    fix w1 p1
    assume f: "calculateFees_fees ctx w (ps ! i) = Inr (w1, p1, True)"
      and m: "calculateFees_margin (ps[i := p1]) i j = (ps', ok)"
    from calculateFees_fees_frame [OF f] show ?thesis
      by (simp add: nth_update_field calculateFees_margin_frame [OF m])
  qed
  then show "length ps' = length ps"
    and "k \<noteq> i \<Longrightarrow> ps' ! k = ps ! k"
    and "fillAmountB (ps' ! k) = fillAmountB (ps ! k)"
    and "order (ps' ! k) = order (ps ! k)"
    by simp_all
qed

lemma calculateFees_closure:
  assumes "calculateFees ctx w ps i j = Inr (w', ps', True)" and "i < length ps"
  shows "fillAmountS (ps' ! i) - feeAmountS (ps' ! i) = fillAmountB (ps ! j)"
proof (rule calculateFees_cases [OF assms(1)])
  fix w1 p1
  assume "\<not> True"
  then show ?thesis by simp
next
  fix w1 p1
  assume f: "calculateFees_fees ctx w (ps ! i) = Inr (w1, p1, True)"
    and m: "calculateFees_margin (ps[i := p1]) i j = (ps', True)"
  from calculateFees_margin_closure [OF m] assms(2)
  have "fillAmountS (ps' ! i) - feeAmountS (ps' ! i) = fillAmountB (ps[i := p1] ! j)"
    by simp
  also have "\<dots> = fillAmountB (ps ! j)"
    using calculateFees_fees_frame [OF f] by (simp add: nth_update_field)
  finally show ?thesis .
qed

lemma calculateFees_step_cases:
  assumes "calculateFees_step ctx (w, r) i = Inr (w1, r1)"
  obtains ok where
    "calculateFees ctx w (participations r) i (prevIndex (length (participations r)) i)
       = Inr (w1, participations r1, ok)"
    and "Ring.valid r1 \<longrightarrow> Ring.valid r \<and> ok"
proof -
  let ?ps = "participations r"
  obtain w2 ps2 ok where
    c: "calculateFees ctx w ?ps i (prevIndex (length ?ps) i) = Inr (w2, ps2, ok)"
    using assms
    by (cases "calculateFees ctx w ?ps i (prevIndex (length ?ps) i)")
       (auto simp: calculateFees_step_def Let_def)
  from assms c have "w1 = w2" "participations r1 = ps2" "Ring.valid r1 \<longrightarrow> Ring.valid r \<and> ok"
    by (auto simp: calculateFees_step_def Let_def ensure_def split: if_splits prod.splits)
  with c that show thesis by simp
qed

lemma calculateFees_loop:
  assumes "foldE (calculateFees_step ctx) (w, r) is = Inr (w', r')"
    and "Ring.valid r'"
    and "\<forall>i \<in> set is. i < length (participations r)"
    and "distinct is"
  shows "length (participations r') = length (participations r) \<and>
         Ring.valid r \<and>
         (\<forall>k. fillAmountB (participations r' ! k) = fillAmountB (participations r ! k)) \<and>
         (\<forall>k. k \<notin> set is \<longrightarrow> participations r' ! k = participations r ! k) \<and>
         (\<forall>i \<in> set is.
            fillAmountS (participations r' ! i) - feeAmountS (participations r' ! i) =
            fillAmountB (participations r ! prevIndex (length (participations r)) i))"
  using assms
proof (induction "is" arbitrary: w r)
  case Nil
  then show ?case by simp
next
  case (Cons i "is")
  from Cons.prems(1) obtain w1 r1 where
    s: "calculateFees_step ctx (w, r) i = Inr (w1, r1)" and
    l: "foldE (calculateFees_step ctx) (w1, r1) is = Inr (w', r')"
    by (auto simp: andThen_eq_Inr)
  from s obtain ok where
    c: "calculateFees ctx w (participations r) i (prevIndex (length (participations r)) i)
          = Inr (w1, participations r1, ok)" and
    v: "Ring.valid r1 \<longrightarrow> Ring.valid r \<and> ok"
    by (rule calculateFees_step_cases)
  note fr = calculateFees_frame [OF c]
  have len: "length (participations r1) = length (participations r)" by (rule fr(1))
  from Cons.prems(3) len have b: "\<forall>i \<in> set is. i < length (participations r1)" by simp
  from Cons.prems(4) have d: "distinct is" and ni: "i \<notin> set is" by simp_all
  note ih = Cons.IH [OF l Cons.prems(2) b d]
  from ih v have vr: "Ring.valid r" and ok by simp_all
  from c \<open>ok\<close> have c': "calculateFees ctx w (participations r) i
      (prevIndex (length (participations r)) i) = Inr (w1, participations r1, True)" by simp
  from Cons.prems(3) have il: "i < length (participations r)" by simp
  note cl = calculateFees_closure [OF c' il]
  have B: "\<forall>k. fillAmountB (participations r' ! k) = fillAmountB (participations r ! k)"
    using ih fr(3) by simp
  have rest: "\<forall>k \<in> set is.
            fillAmountS (participations r' ! k) - feeAmountS (participations r' ! k) =
            fillAmountB (participations r ! prevIndex (length (participations r)) k)"
    using ih fr(3) len by simp
  have here: "fillAmountS (participations r' ! i) - feeAmountS (participations r' ! i) =
      fillAmountB (participations r ! prevIndex (length (participations r)) i)"
    using ih ni cl by simp
  have other: "\<forall>k. k \<notin> set (i # is) \<longrightarrow> participations r' ! k = participations r ! k"
    using ih fr(2) by simp
  from len ih vr B rest here other show ?case by simp
qed

lemma setMaxFillAmounts_step_length:
  assumes "setMaxFillAmounts_step ctx (w, ps) i = Inr (w1, ps1)"
  shows "length ps1 = length ps"
  using assms by (auto simp: setMaxFillAmounts_step_def andThen_eq_Inr)

lemma resize_length:
  assumes "resize ctx w ps i smallest = Inr (ps1, s1)"
  shows "length ps1 = length ps"
  using assms by (auto simp: resize_def Let_def andThen_eq_Inr split: if_splits)

lemma resize_step2_length:
  assumes "resize_step2 ctx w smallest ps i = Inr ps1"
  shows "length ps1 = length ps"
  using assms by (auto simp: resize_step2_def andThen_eq_Inr dest: resize_length)

text \<open>
  Claim C1 (ring closure). When \<open>calculateFillAmountAndFee\<close> returns with the ring still
  valid, every participation \<open>p\<close> with cyclic predecessor \<open>prevP\<close> has
  \<open>p.fillAmountS - p.feeAmountS = prevP.fillAmountB\<close>.
\<close>

theorem ring_closure:
  assumes "calculateFillAmountAndFee ctx w r = Inr (w', r')"
    and "Ring.valid r'"
    and "i < length (participations r')"
  shows "fillAmountS (participations r' ! i) - feeAmountS (participations r' ! i) =
         fillAmountB (participations r' ! prevIndex (length (participations r')) i)"
proof -
  let ?n = "length (participations r)"
  have v: "Ring.valid r"
    using assms(1,2) by (cases "Ring.valid r") (simp_all add: calculateFillAmountAndFee_def)
  with assms(1) obtain w1 ps1 ps2 smallest ps3 w3 r3 where
    l1: "foldE (setMaxFillAmounts_step ctx) (w, participations r) [0..<?n] = Inr (w1, ps1)" and
    l2: "foldE (\<lambda>(ps, smallest) i. resize ctx w1 ps i smallest) (ps1, 0) (rev [0..<?n])
           = Inr (ps2, smallest)" and
    l3: "foldE (resize_step2 ctx w1 smallest) ps2 (rev [smallest..<?n]) = Inr ps3" and
    l4: "foldE (calculateFees_step ctx)
           (foldl (\<lambda>w p. reserveAmountS w (order p) (fillAmountS p)) w1 ps3,
            r\<lparr>participations := ps3\<rparr>) [0..<?n] = Inr (w3, r3)" and
    r': "r' = r3\<lparr>Ring.valid :=
                  (Ring.valid r3 \<and>
                   ensure (minerFeesToOrdersPercentage r3 \<le> feePercentageBase ctx)
                     ''miner distributes more than 100% of its fees to order owners'')\<rparr>"
    by (auto simp: calculateFillAmountAndFee_def Let_def andThen_eq_Inr)
  have n1: "length (snd (w1, ps1)) = ?n"
    by (rule foldE_invariant [OF l1, where P = "\<lambda>s. length (snd s) = ?n"])
       (auto dest: setMaxFillAmounts_step_length)
  have n2: "length (fst (ps2, smallest)) = ?n"
    by (rule foldE_invariant [OF l2, where P = "\<lambda>s. length (fst s) = ?n"])
       (use n1 in \<open>auto dest: resize_length\<close>)
  have n3: "length ps3 = ?n"
    by (rule foldE_invariant [OF l3, where P = "\<lambda>s. length s = ?n"])
       (use n2 in \<open>auto dest: resize_step2_length\<close>)
  from assms(2) r' have v3: "Ring.valid r3" by simp
  have "\<forall>i \<in> set [0..<?n]. i < length (participations (r\<lparr>participations := ps3\<rparr>))"
    using n3 by simp
  from calculateFees_loop [OF l4 v3 this] have
    len: "length (participations r3) = ?n" and
    B: "\<And>k. fillAmountB (participations r3 ! k) = fillAmountB (ps3 ! k)" and
    C: "\<And>i. i < ?n \<Longrightarrow>
          fillAmountS (participations r3 ! i) - feeAmountS (participations r3 ! i) =
          fillAmountB (ps3 ! prevIndex ?n i)"
    using n3 by simp_all
  from assms(3) r' len have "i < ?n" by simp
  from C [OF this] B r' len show ?thesis by simp
qed

lemma margin_run:
  "map_sum id snd (calculateFillAmountAndFee exampleContext marginWorld marginRing) = Inr marginResult"
  by code_simp

theorem ring_closure_witness:
  "(case calculateFillAmountAndFee exampleContext marginWorld marginRing of
      Inl e \<Rightarrow> False
    | Inr (w', r') \<Rightarrow>
        Ring.valid r' \<and> 0 < length (participations r') \<and>
        fillAmountS (participations r' ! 0) - feeAmountS (participations r' ! 0) =
        fillAmountB (participations r' ! prevIndex (length (participations r')) 0))"
proof -
  from margin_run obtain w' where
    e: "calculateFillAmountAndFee exampleContext marginWorld marginRing = Inr (w', marginResult)"
    by (cases "calculateFillAmountAndFee exampleContext marginWorld marginRing") auto
  have v: "Ring.valid marginResult" and l: "0 < length (participations marginResult)"
    by (simp_all add: marginResult_def)
  from ring_closure [OF e v l] e v l show ?thesis by simp
qed

section \<open>An invalid ring is left alone\<close>

lemma checkOrdersValid_participations [simp]:
  "participations (checkOrdersValid w r) = participations r"
  "minerFeesToOrdersPercentage (checkOrdersValid w r) = minerFeesToOrdersPercentage r"
  by (simp_all add: checkOrdersValid_def Let_def)

lemma checkForSubRings_participations [simp]:
  "participations (checkForSubRings w r) = participations r"
  "minerFeesToOrdersPercentage (checkForSubRings w r) = minerFeesToOrdersPercentage r"
  by (simp_all add: checkForSubRings_def Let_def)

text \<open>
  Claim C10. Called on a ring whose \<open>valid\<close> flag is false, \<open>calculateFillAmountAndFee\<close>
  returns at once: the ring and the world (orders and spendables, so nothing queried or
  reserved) are unchanged. For a ring as the constructor and the two checks leave it, the
  fill, split and fee amounts of every participation and \<open>minerFeesToOrdersPercentage\<close> are
  therefore still zero.
\<close>

theorem invalid_ring_untouched:
  assumes "\<not> Ring.valid r"
  shows "calculateFillAmountAndFee ctx w r = Inr (w, r) \<and>
         (r = checkForSubRings w (checkOrdersValid w (newRing orders)) \<longrightarrow>
            minerFeesToOrdersPercentage r = 0 \<and>
            (\<forall>p \<in> set (participations r).
               fillAmountS p = 0 \<and> fillAmountB p = 0 \<and> splitS p = 0 \<and>
               Participation.feeAmount p = 0 \<and> feeAmountS p = 0 \<and> feeAmountB p = 0 \<and>
               ringSpendableS p = 0 \<and> ringSpendableFee p = 0))"
proof -
  from assms have "calculateFillAmountAndFee ctx w r = Inr (w, r)"
    by (simp add: calculateFillAmountAndFee_def)
  moreover have "minerFeesToOrdersPercentage (newRing orders) = 0"
    and "\<forall>p \<in> set (participations (newRing orders)).
           fillAmountS p = 0 \<and> fillAmountB p = 0 \<and> splitS p = 0 \<and>
           Participation.feeAmount p = 0 \<and> feeAmountS p = 0 \<and> feeAmountB p = 0 \<and>
           ringSpendableS p = 0 \<and> ringSpendableFee p = 0"
    by (auto simp: newRing_def newParticipation_def)
  ultimately show ?thesis by simp
qed

lemma loneRing_invalid: "\<not> Ring.valid loneRing"
  by code_simp

theorem invalid_ring_untouched_witness:
  "\<not> Ring.valid loneRing \<and>
   calculateFillAmountAndFee exampleContext marginWorld loneRing = Inr (marginWorld, loneRing) \<and>
   minerFeesToOrdersPercentage loneRing = 0 \<and>
   fillAmountS (participations loneRing ! 0) = 0"
proof -
  have v: "\<not> Ring.valid loneRing" by (rule loneRing_invalid)
  have m: "participations loneRing ! 0 \<in> set (participations loneRing)"
    by (simp add: loneRing_def newRing_def)
  from invalid_ring_untouched [OF v, of exampleContext marginWorld "[0]"] v m
  show ?thesis by (simp add: loneRing_def [symmetric])
qed

section \<open>Fee modes of a matching order\<close>

lemma calculateFees_fees_modes:
  assumes "calculateFees_fees ctx w p = Inr (w', p', ok)"
    and "\<not> P2P (orderOf w p)"
  shows "feeAmountS p' = 0 \<and>
         (Participation.feeAmount p' = 0 \<or> feeAmountB p' = 0) \<and>
         dividedToIntegerBy (OrderInfo.feeAmount (orderOf w p) * fillAmountS p) (amountS (orderOf w p))
           = Inr (Participation.feeAmount p' + feeAmountB p')"
proof -
  obtain w1 sf where g: "getSpendableFee ctx w (order p) = (w1, sf)"
    by (cases "getSpendableFee ctx w (order p)")
  from assms g show ?thesis
    by (auto simp: calculateFees_fees_def andThen_eq_Inr Let_def split: if_splits)
qed

lemma calculateFees_margin_fees:
  assumes "calculateFees_margin ps i j = (ps', ok)"
  shows "Participation.feeAmount (ps' ! k) = Participation.feeAmount (ps ! k)"
    and "feeAmountB (ps' ! k) = feeAmountB (ps ! k)"
  using assms
  by (auto simp: calculateFees_margin_def Let_def nth_update_field split: if_splits)

lemma calculateFees_margin_total:
  assumes "calculateFees_margin ps i j = (ps', True)" and "i < length ps"
  shows "fillAmountS (ps' ! i) + splitS (ps' ! i) = fillAmountS (ps ! i)"
  using assms
  by (auto simp: calculateFees_margin_def Let_def split: if_splits)

text \<open>
  The fee that is charged, on the participation as \<open>calculateFees\<close> leaves it: the pro-rata
  fee of what the order sells, \<open>fillAmountS + splitS\<close> (the value of \<open>fillAmountS\<close> on entry),
  goes to \<open>feeAmount\<close> or to \<open>feeAmountB\<close>.
\<close>

lemma calculateFees_fee_total:
  assumes "calculateFees ctx w ps i j = Inr (w', ps', True)"
    and "i < length ps"
    and "\<not> P2P (orderOf w (ps ! i))"
  shows "dividedToIntegerBy
           (OrderInfo.feeAmount (orderOf w (ps ! i)) * (fillAmountS (ps' ! i) + splitS (ps' ! i)))
           (amountS (orderOf w (ps ! i)))
         = Inr (Participation.feeAmount (ps' ! i) + feeAmountB (ps' ! i))"
proof (rule calculateFees_cases [OF assms(1)])
  fix w1 p1
  assume "\<not> True"
  then show ?thesis by simp
next
  fix w1 p1
  assume f: "calculateFees_fees ctx w (ps ! i) = Inr (w1, p1, True)"
    and m: "calculateFees_margin (ps[i := p1]) i j = (ps', True)"
  have "Participation.feeAmount (ps' ! i) = Participation.feeAmount p1"
    and "feeAmountB (ps' ! i) = feeAmountB p1"
    using calculateFees_margin_fees [OF m, of i] assms(2) by simp_all
  moreover have "fillAmountS (ps' ! i) + splitS (ps' ! i) = fillAmountS (ps ! i)"
    using calculateFees_margin_total [OF m] calculateFees_fees_frame [OF f] assms(2) by simp
  ultimately show ?thesis using calculateFees_fees_modes [OF f assms(3)] by simp
qed





section \<open>The proportional split of \<open>setMaxFillAmounts\<close>\<close>

text \<open>
  Claim C3. For a non-P2P order without the fee-from-bought-amount shortcut, whose pro-rata
  fee is positive, with \<open>feeToken = tokenS\<close> and \<open>fillAmountS + fee > ringSpendableS\<close>,
  \<open>setMaxFillAmounts\<close> sets \<open>fillAmountS = ringSpendableS * amountS / (amountS + feeAmount)\<close> and
  the fee to \<open>ringSpendableS * feeAmount / (amountS + feeAmount)\<close>, both truncated. The code
  asserts that the fee spendable equals \<open>ringSpendableS\<close> on this path, and the total must not
  be zero.
\<close>

theorem proportional_split:
  assumes "oi = orderOf w p"
    and "\<not> P2P oi"
    and "\<not> (feeToken oi = tokenB oi \<and> owner oi = tokenRecipient oi \<and> OrderInfo.feeAmount oi \<le> amountB oi)"
    and "getSpendableS ctx w (order p) = (w1, spendableS)"
    and "dividedToIntegerBy (OrderInfo.feeAmount oi * min spendableS (amountS oi - filledAmountS oi))
           (amountS oi) = Inr fee"
    and "fee > 0"
    and "feeToken oi = tokenS oi"
    and "min spendableS (amountS oi - filledAmountS oi) + fee > spendableS"
    and "getSpendableFee ctx w1 (order p) = (w2, spendableS)"
    and "amountS oi + OrderInfo.feeAmount oi \<noteq> 0"
  shows "setMaxFillAmounts ctx w p =
           Inr (w2,
                p\<lparr>ringSpendableS := spendableS,
                  fillAmountS := truncDiv (spendableS * amountS oi) (amountS oi + OrderInfo.feeAmount oi),
                  fillAmountB :=
                    truncDiv (truncDiv (spendableS * amountS oi) (amountS oi + OrderInfo.feeAmount oi)
                              * amountB oi) (amountS oi)\<rparr>,
                Some (truncDiv (spendableS * OrderInfo.feeAmount oi) (amountS oi + OrderInfo.feeAmount oi)))"
proof -
  let ?p1 = "p\<lparr>ringSpendableS := spendableS,
                fillAmountS := min spendableS (amountS oi - filledAmountS oi)\<rparr>"
  let ?total = "amountS oi + OrderInfo.feeAmount oi"
  from assms(5) have nz: "amountS oi \<noteq> 0"
    by (auto simp: dividedToIntegerBy_def split: if_splits)
  have l: "limitByFee ctx w1 oi ?p1 =
        Inr (w2, ?p1\<lparr>fillAmountS := truncDiv (spendableS * amountS oi) ?total\<rparr>,
             Some (truncDiv (spendableS * OrderInfo.feeAmount oi) ?total))"
    using assms(5-10)
    by (simp add: limitByFee_def assert_def Let_def dividedToIntegerBy_def)
  from assms(1-4) l nz show ?thesis
    by (simp add: setMaxFillAmounts_def Let_def dividedToIntegerBy_def)
qed

theorem proportional_split_witness:
  "map_sum id snd (setMaxFillAmounts exampleContext feeWorld (newParticipation 0)) =
     Inr ((newParticipation 0)\<lparr>ringSpendableS := 600, fillAmountS := 545, fillAmountB := 545\<rparr>,
          Some 54)"
proof -
  let ?p = "newParticipation 0"
  let ?oi = "orderOf feeWorld ?p"
  let ?w1 = "fst (getSpendableS exampleContext feeWorld (order ?p))"
  let ?w2 = "fst (getSpendableFee exampleContext ?w1 (order ?p))"
  have h2: "\<not> P2P ?oi" by code_simp
  have h3: "\<not> (feeToken ?oi = tokenB ?oi \<and> owner ?oi = tokenRecipient ?oi \<and>
               OrderInfo.feeAmount ?oi \<le> amountB ?oi)" by code_simp
  have "snd (getSpendableS exampleContext feeWorld (order ?p)) = 600" by code_simp
  then have h4: "getSpendableS exampleContext feeWorld (order ?p) = (?w1, 600)"
    by (simp add: prod_eq_iff)
  have h5: "dividedToIntegerBy (OrderInfo.feeAmount ?oi * min 600 (amountS ?oi - filledAmountS ?oi))
              (amountS ?oi) = Inr 60" by code_simp
  have h6: "(60::int) > 0" by simp
  have h7: "feeToken ?oi = tokenS ?oi" by code_simp
  have h8: "min 600 (amountS ?oi - filledAmountS ?oi) + 60 > 600" by code_simp
  have "snd (getSpendableFee exampleContext ?w1 (order ?p)) = 600" by code_simp
  then have h9: "getSpendableFee exampleContext ?w1 (order ?p) = (?w2, 600)"
    by (simp add: prod_eq_iff)
  have h10: "amountS ?oi + OrderInfo.feeAmount ?oi \<noteq> 0" by code_simp
  have v: "truncDiv (600 * amountS ?oi) (amountS ?oi + OrderInfo.feeAmount ?oi) = 545"
    "truncDiv (545 * amountB ?oi) (amountS ?oi) = 545"
    "truncDiv (600 * OrderInfo.feeAmount ?oi) (amountS ?oi + OrderInfo.feeAmount ?oi) = 54"
    by code_simp+
  from proportional_split [OF refl h2 h3 h4 h5 h6 h7 h8 h9 h10] show ?thesis
    by (simp add: v)
qed

section \<open>\<open>revertOrderStats\<close> after \<open>adjustOrderStates\<close>\<close>

lemma shiftFilled_zero: "shiftFilled (\<lambda>a. 0) h = h"
  by (rule ext) (simp add: shiftFilled_def)

lemma shiftFilled_shiftFilled: "shiftFilled d (shiftFilled e h) = shiftFilled (\<lambda>a. e a + d a) h"
  by (rule ext) (simp add: shiftFilled_def)

lemma addFilled_shift:
  "orderHeap (addFilled a d w) = shiftFilled (\<lambda>x. if x = a then d else 0) (orderHeap w)"
  by (rule ext) (simp add: addFilled_def shiftFilled_def)

lemma addFilled_spendables [simp]: "spendables (addFilled a d w) = spendables w"
  by (simp add: addFilled_def)

lemma subAmount_orderHeap [simp]: "orderHeap (subAmount s a w) = orderHeap w"
  by (simp add: subAmount_def)

lemma adjustOrderState_heap:
  assumes "adjustOrderState w p = Inr w1"
  shows "orderHeap w1 = orderHeap (addFilled (order p) (fillAmountS p + splitS p) w)"
  using assms
  by (auto simp: adjustOrderState_def Let_def andThen_eq_Inr split: if_splits)

lemma filledDelta_Cons:
  "filledDelta (p # ps) a = (if a = order p then fillAmountS p + splitS p else 0) + filledDelta ps a"
  by (auto simp: filledDelta_def)

lemma adjustOrderStates_heap:
  assumes "foldE adjustOrderState w ps = Inr w1"
  shows "orderHeap w1 = shiftFilled (filledDelta ps) (orderHeap w)"
  using assms
proof (induction ps arbitrary: w)
  case Nil
  then show ?case by (simp add: filledDelta_def shiftFilled_zero)
next
  case (Cons p ps)
  from Cons.prems obtain wa where
    a: "adjustOrderState w p = Inr wa" and r: "foldE adjustOrderState wa ps = Inr w1"
    by (auto simp: andThen_eq_Inr)
  from Cons.IH [OF r] adjustOrderState_heap [OF a] show ?case
    by (simp add: addFilled_shift shiftFilled_shiftFilled filledDelta_Cons)
qed

lemma revertOrderStats_step_world:
  assumes "revertOrderStats_step w p = Inr w1"
  shows "w1 = addFilled (order p) (- (fillAmountS p + splitS p)) w"
  using assms by (simp add: revertOrderStats_step_def Let_def andThen_eq_Inr)

lemma revertOrderStats_heap:
  assumes "foldE revertOrderStats_step w ps = Inr w1"
  shows "orderHeap w1 = shiftFilled (\<lambda>a. - filledDelta ps a) (orderHeap w) \<and>
         spendables w1 = spendables w"
  using assms
proof (induction ps arbitrary: w)
  case Nil
  then show ?case by (simp add: filledDelta_def shiftFilled_zero)
next
  case (Cons p ps)
  from Cons.prems obtain wa where
    a: "revertOrderStats_step w p = Inr wa" and r: "foldE revertOrderStats_step wa ps = Inr w1"
    by (auto simp: andThen_eq_Inr)
  from revertOrderStats_step_world [OF a]
  have wa: "wa = addFilled (order p) (- (fillAmountS p + splitS p)) w" .
  from Cons.IH [OF r] have h: "orderHeap w1 = shiftFilled (\<lambda>a. - filledDelta ps a) (orderHeap wa)"
    and s: "spendables w1 = spendables wa" by simp_all
  have "orderHeap w1 =
        shiftFilled (\<lambda>a. (if a = order p then - (fillAmountS p + splitS p) else 0) + - filledDelta ps a)
          (orderHeap w)"
    by (simp only: h wa addFilled_shift shiftFilled_shiftFilled)
  also have "\<dots> = shiftFilled (\<lambda>a. - filledDelta (p # ps) a) (orderHeap w)"
    by (rule arg_cong [where f = "\<lambda>d. shiftFilled d (orderHeap w)"])
       (rule ext, simp add: filledDelta_Cons)
  finally show ?case using s wa by simp
qed

text \<open>
  Claim C2, as amended. When \<open>adjustOrderStates\<close> and then \<open>revertOrderStats\<close> run on a ring
  (without a failed assertion), every order is as it was before: \<open>filledAmountS\<close> is restored
  and no other order field was touched. The spendables are not restored: \<open>revertOrderStats\<close>
  leaves them as \<open>adjustOrderStates\<close> left them.
\<close>

theorem revert_restores_filled:
  assumes "adjustOrderStates w r = Inr w1"
    and "revertOrderStats w1 r = Inr w2"
  shows "orderHeap w2 = orderHeap w \<and> spendables w2 = spendables w1"
proof -
  from assms(1) have a: "orderHeap w1 = shiftFilled (filledDelta (participations r)) (orderHeap w)"
    unfolding adjustOrderStates_def by (rule adjustOrderStates_heap)
  from assms(2) have b: "orderHeap w2 = shiftFilled (\<lambda>a. - filledDelta (participations r) a) (orderHeap w1)"
    and c: "spendables w2 = spendables w1"
    unfolding revertOrderStats_def by (auto dest: revertOrderStats_heap)
  from a b have "orderHeap w2 = orderHeap w"
    by (simp add: shiftFilled_shiftFilled shiftFilled_zero)
  with c show ?thesis by simp
qed

theorem revert_restores_filled_witness:
  "(case adjustOrderStates marginWorld marginResult of
      Inl e \<Rightarrow> False
    | Inr w1 \<Rightarrow>
        (case revertOrderStats w1 marginResult of
           Inl e \<Rightarrow> False
         | Inr w2 \<Rightarrow>
             filledAmountS (orderHeap w1 0) = 1100 \<and>
             orderHeap w2 = orderHeap marginWorld \<and> spendables w2 = spendables w1))"
proof -
  have "(case adjustOrderStates marginWorld marginResult of
      Inl e \<Rightarrow> False
    | Inr w1 \<Rightarrow>
        (case revertOrderStats w1 marginResult of
           Inl e \<Rightarrow> False
         | Inr w2 \<Rightarrow> filledAmountS (orderHeap w1 0) = 1100))"
    by code_simp
  then obtain w1 w2 where
    a: "adjustOrderStates marginWorld marginResult = Inr w1" and
    b: "revertOrderStats w1 marginResult = Inr w2" and
    c: "filledAmountS (orderHeap w1 0) = 1100"
    by (auto split: sum.splits)
  from revert_restores_filled [OF a b] a b c show ?thesis by simp
qed

text \<open>
  The claim as stated fails on the spendables: in scenario S2, A's \<open>tokenSpendableS.amount\<close>
  is 10000 before \<open>adjustOrderStates\<close> and 8900 after \<open>revertOrderStats\<close>.
\<close>

theorem revert_spendables_counterexample:
  "(case adjustOrderStates marginWorld marginResult of
      Inl e \<Rightarrow> False
    | Inr w1 \<Rightarrow>
        (case revertOrderStats w1 marginResult of
           Inl e \<Rightarrow> False
         | Inr w2 \<Rightarrow>
             tokenSpendableS (orderHeap marginWorld 0) = 0 \<and>
             amount (spendables marginWorld 0) = 10000 \<and>
             amount (spendables w2 0) = 8900))"
  by code_simp

section \<open>No margin for security tokens\<close>

lemma foldE_cong:
  assumes "\<And>s x. x \<in> set xs \<Longrightarrow> f s x = g s x"
  shows "foldE f s xs = foldE g s xs"
  using assms by (induction xs arbitrary: s) simp_all

lemma margin_ERC1400: "tokenTypeS (orderOf w p) = ERC1400 \<Longrightarrow> margin w p = 0"
  by (simp add: margin_def)

lemma addTokenTransfer_zero:
  "addTokenTransfer ctx items tokenType fromTranche token from to 0 data = Inr items"
  by (simp add: addTokenTransfer_def)

lemma transferTokens_step_splitS:
  assumes "i < length ps" and "tokenTypeS (orderOf w (ps ! i)) = ERC1400"
  shows "transferTokens_step ctx w feeRecipient (ps[i := (ps ! i)\<lparr>splitS := s\<rparr>]) items k =
         transferTokens_step ctx w feeRecipient ps items k"
proof -
  let ?ps = "ps[i := (ps ! i)\<lparr>splitS := s\<rparr>]"
  have f: "\<And>n. feeAmountB (?ps ! n) = feeAmountB (ps ! n)"
    "\<And>n. rebateB (?ps ! n) = rebateB (ps ! n)"
    "\<And>n. orderOf w (?ps ! n) = orderOf w (ps ! n)"
    "\<And>n. fillAmountS (?ps ! n) = fillAmountS (ps ! n)"
    "\<And>n. feeAmountS (?ps ! n) = feeAmountS (ps ! n)"
    "\<And>n. rebateS (?ps ! n) = rebateS (ps ! n)"
    "\<And>n. Participation.feeAmount (?ps ! n) = Participation.feeAmount (ps ! n)"
    "\<And>n. rebateFee (?ps ! n) = rebateFee (ps ! n)"
    by (simp_all add: nth_update_field orderOf_def)
  have m: "margin w (?ps ! k) = margin w (ps ! k)"
  proof (cases "k = i")
    case True
    with assms show ?thesis by (simp add: margin_def orderOf_def)
  next
    case False
    then show ?thesis by simp
  qed
  show ?thesis
    by (simp add: transferTokens_step_def Let_def f m)
qed

text \<open>
  Claim C7. For a participation whose order has \<open>tokenTypeS = ERC1400\<close>, the margin is zero,
  so the fourth transfer of \<open>transferTokens\<close> (to \<open>mining.feeRecipient\<close>) emits nothing, and
  the transfers of the whole ring do not depend on that participation's \<open>splitS\<close>.
\<close>

theorem margin_suppressed:
  assumes "i < length ps" and "tokenTypeS (orderOf w (ps ! i)) = ERC1400"
  shows "margin w (ps ! i) = 0 \<and>
         addTokenTransfer ctx items (tokenTypeS (orderOf w (ps ! i))) (trancheS (orderOf w (ps ! i)))
             (tokenS (orderOf w (ps ! i))) (owner (orderOf w (ps ! i))) feeRecipient
             (margin w (ps ! i)) (transferDataS (orderOf w (ps ! i)))
           = Inr items \<and>
         transferTokens ctx w feeRecipient (ps[i := (ps ! i)\<lparr>splitS := s\<rparr>]) =
         transferTokens ctx w feeRecipient ps"
proof -
  from assms(2) have m: "margin w (ps ! i) = 0" by (rule margin_ERC1400)
  have "transferTokens ctx w feeRecipient (ps[i := (ps ! i)\<lparr>splitS := s\<rparr>]) =
        foldE (transferTokens_step ctx w feeRecipient (ps[i := (ps ! i)\<lparr>splitS := s\<rparr>])) []
          [0..<length ps]"
    by (simp add: transferTokens_def)
  also have "\<dots> = foldE (transferTokens_step ctx w feeRecipient ps) [] [0..<length ps]"
    by (rule foldE_cong) (rule transferTokens_step_splitS [OF assms])
  also have "\<dots> = transferTokens ctx w feeRecipient ps"
    by (simp add: transferTokens_def)
  finally show ?thesis using m by (simp add: addTokenTransfer_zero)
qed

lemma security_run:
  "transferTokens exampleContext securityWorld ''miner'' (participations marginResult) =
     Inr [\<lparr>t_token = ''SEC'', t_from = ''A'', t_to = ''B'', t_amount = 1000, t_tokenType = ERC1400,
           t_fromTranche = ''0xBEEF'', t_toTranche = ''0xBEEF'', t_data = Some ''0x''\<rparr>,
          \<lparr>t_token = ''Y'', t_from = ''B'', t_to = ''A'', t_amount = 1000, t_tokenType = ERC20,
           t_fromTranche = zeroAddress, t_toTranche = zeroAddress, t_data = None\<rparr>]"
  by code_simp

theorem margin_suppressed_witness:
  "splitS (participations marginResult ! 0) = 100 \<and>
   tokenTypeS (orderOf securityWorld (participations marginResult ! 0)) = ERC1400 \<and>
   margin securityWorld (participations marginResult ! 0) = 0 \<and>
   transferTokens exampleContext securityWorld ''miner''
     ((participations marginResult)[0 := (participations marginResult ! 0)\<lparr>splitS := 0\<rparr>]) =
   transferTokens exampleContext securityWorld ''miner'' (participations marginResult) \<and>
   map t_to (projr (transferTokens exampleContext securityWorld ''miner'' (participations marginResult)))
     = [''B'', ''A'']"
proof -
  have l: "0 < length (participations marginResult)" by (simp add: marginResult_def)
  have h: "tokenTypeS (orderOf securityWorld (participations marginResult ! 0)) = ERC1400"
    by code_simp
  have s: "splitS (participations marginResult ! 0) = 100" by (simp add: marginResult_def)
  from margin_suppressed [OF l h, of exampleContext "[]" "''miner''" 0] h s security_run
  show ?thesis by simp
qed

section \<open>Filled amounts and the cancellation sentinel\<close>

lemma batch_other:
  assumes "batchGetFilledAndCheckCancelled fills w orders = Inr w'" and "a \<notin> set orders"
  shows "orderHeap w' a = orderHeap w a"
  using assms
  by (induction fills w orders rule: batchGetFilledAndCheckCancelled.induct) auto

lemma batch_spendables:
  assumes "batchGetFilledAndCheckCancelled fills w orders = Inr w'"
  shows "spendables w' = spendables w"
  using assms
  by (induction fills w orders rule: batchGetFilledAndCheckCancelled.induct) auto

lemma batch_total:
  assumes "length orders \<le> length fills"
  shows "\<exists>w'. batchGetFilledAndCheckCancelled fills w orders = Inr w'"
  using assms
  by (induction fills w orders rule: batchGetFilledAndCheckCancelled.induct) auto

lemma batch_each:
  assumes "batchGetFilledAndCheckCancelled fills w orders = Inr w'"
    and "distinct orders" and "i < length orders"
  shows "orderHeap w' (orders ! i) = setFilled (fills ! i) (orderHeap w (orders ! i))"
  using assms
proof (induction fills w orders arbitrary: i rule: batchGetFilledAndCheckCancelled.induct)
  case (1 fills w)
  then show ?case by simp
next
  case (2 w a orders)
  then show ?case by simp
next
  case (3 fill fills w a orders)
  let ?w1 = "w\<lparr>orderHeap := (orderHeap w)(a := setFilled fill (orderHeap w a))\<rparr>"
  from "3.prems"(1) have r: "batchGetFilledAndCheckCancelled fills ?w1 orders = Inr w'" by simp
  from "3.prems"(2) have d: "distinct orders" and n: "a \<notin> set orders" by simp_all
  show ?case
  proof (cases i)
    case 0
    with batch_other [OF r n] show ?thesis by simp
  next
    case (Suc j)
    with "3.prems"(3) have j: "j < length orders" by simp
    then have "orders ! j \<noteq> a" using n by auto
    with "3.IH" [OF r d j] Suc show ?thesis by simp
  qed
qed

text \<open>
  Claim C8. For an array of distinct orders and an answer with an entry for each,
  \<open>batchGetFilledAndCheckCancelled\<close> returns, sets the \<open>i\<close>-th order's \<open>filledAmountS\<close> to the
  \<open>i\<close>-th returned value, and leaves the order valid exactly when it was valid before and the
  value is not the sentinel \<open>2^256 - 1\<close>.
\<close>

theorem batch_sets_filled_and_valid:
  assumes "distinct orders" and "length orders \<le> length fills"
  shows "\<exists>w'. batchGetFilledAndCheckCancelled fills w orders = Inr w' \<and>
           (\<forall>i < length orders.
              filledAmountS (orderHeap w' (orders ! i)) = fills ! i \<and>
              OrderInfo.valid (orderHeap w' (orders ! i)) =
                (OrderInfo.valid (orderHeap w (orders ! i)) \<and> fills ! i \<noteq> 2 ^ 256 - 1))"
proof -
  from batch_total [OF assms(2)] obtain w' where
    r: "batchGetFilledAndCheckCancelled fills w orders = Inr w'" by blast
  have "\<forall>i < length orders.
          filledAmountS (orderHeap w' (orders ! i)) = fills ! i \<and>
          OrderInfo.valid (orderHeap w' (orders ! i)) =
            (OrderInfo.valid (orderHeap w (orders ! i)) \<and> fills ! i \<noteq> 2 ^ 256 - 1)"
    using batch_each [OF r assms(1)]
    by (simp add: setFilled_def ensure_def cancelledValue_def)
  with r show ?thesis by blast
qed

theorem batch_sets_filled_and_valid_witness:
  "(case batchGetFilledAndCheckCancelled [30, 2 ^ 256 - 1] marginWorld [0, 1] of
      Inl e \<Rightarrow> False
    | Inr w' \<Rightarrow>
        filledAmountS (orderHeap w' 0) = 30 \<and> OrderInfo.valid (orderHeap w' 0) \<and>
        filledAmountS (orderHeap w' 1) = 2 ^ 256 - 1 \<and> \<not> OrderInfo.valid (orderHeap w' 1))"
proof -
  have d: "distinct [0, 1 :: nat]" by simp
  have l: "length [0, 1 :: nat] \<le> length [30, 2 ^ 256 - 1 :: int]" by simp
  have v: "OrderInfo.valid (orderHeap marginWorld 0)" "OrderInfo.valid (orderHeap marginWorld 1)"
    by code_simp+
  from batch_sets_filled_and_valid [OF d l, of marginWorld] obtain w' where
    r: "batchGetFilledAndCheckCancelled [30, 2 ^ 256 - 1] marginWorld [0, 1] = Inr w'" and
    a: "\<forall>i < length [0, 1 :: nat].
          filledAmountS (orderHeap w' ([0, 1] ! i)) = [30, 2 ^ 256 - 1] ! i \<and>
          OrderInfo.valid (orderHeap w' ([0, 1] ! i)) =
            (OrderInfo.valid (orderHeap marginWorld ([0, 1] ! i)) \<and>
             [30, 2 ^ 256 - 1] ! i \<noteq> (2 ^ 256 - 1 :: int))"
    by blast
  from a [rule_format, of 0] a [rule_format, of 1] v r show ?thesis by simp
qed

section \<open>The tokens of a balance book\<close>

lemma map_fst_upsert:
  "map fst (upsert k v kvs) = (if k \<in> fst ` set kvs then map fst kvs else map fst kvs @ [k])"
  by (induction kvs) force+

lemma map_of_upsert: "map_of (upsert k v kvs) = (map_of kvs)(k \<mapsto> v)"
  by (induction kvs) (auto simp: fun_eq_iff)

lemma set_upsert_subset: "set (upsert k v kvs) \<subseteq> insert (k, v) (set kvs)"
  by (induction kvs) (auto split: if_splits)

lemma getOr_upsert: "getOr d (upsert k v kvs) k' = (if k' = k then v else getOr d kvs k')"
  by (simp add: getOr_def map_of_upsert)

lemma getOr_absent: "k \<notin> fst ` set kvs \<Longrightarrow> getOr d kvs k = d"
  by (simp add: getOr_def map_of_eq_None_iff [THEN iffD2])

lemma getOr_cases: "getOr d kvs k = d \<or> (k, getOr d kvs k) \<in> set kvs"
  by (auto simp: getOr_def split: option.splits dest: map_of_SomeD)

lemma distinct_upsert: "distinct (map fst kvs) \<Longrightarrow> distinct (map fst (upsert k v kvs))"
  by (simp add: map_fst_upsert)

lemma keys_upsert: "fst ` set (upsert k v kvs) = insert k (fst ` set kvs)"
proof -
  have "set (map fst (upsert k v kvs)) = insert k (set (map fst kvs))"
    by (auto simp: map_fst_upsert)
  then show ?thesis by simp
qed

lemma tokensOf_addBalance:
  "tokensOf (addBalance ownr token tranche amt b) o' =
     (if o' = ownr then insert token (tokensOf b ownr) else tokensOf b o')"
  by (simp add: tokensOf_def addBalance_def Let_def getOr_upsert keys_upsert)

lemma wfBook_addBalance:
  assumes "wfBook b"
  shows "wfBook (addBalance ownr token tranche amt b)"
proof -
  let ?tokens = "getOr [] b ownr"
  let ?new = "upsert token (upsert tranche (getOr 0 (getOr [] ?tokens token) tranche + amt)
                (getOr [] ?tokens token)) ?tokens"
  have d: "distinct (map fst ?tokens)"
    using getOr_cases [of "[]" b ownr] assms by (auto simp: wfBook_def)
  have "\<forall>kv \<in> set (upsert ownr ?new b). distinct (map fst (snd kv))"
  proof
    fix kv assume "kv \<in> set (upsert ownr ?new b)"
    with set_upsert_subset have "kv = (ownr, ?new) \<or> kv \<in> set b" by fastforce
    with d assms show "distinct (map fst (snd kv))"
      by (auto simp: wfBook_def distinct_upsert)
  qed
  with assms show ?thesis
    by (simp add: wfBook_def addBalance_def Let_def distinct_upsert)
qed

lemma count_list_distinct: "distinct xs \<Longrightarrow> count_list xs x = (if x \<in> set xs then 1 else 0)"
  by (induction xs) auto

lemma getAllTokens_Cons: "getAllTokens ((ownr, tokens) # b) = map fst tokens @ getAllTokens b"
  by (simp add: getAllTokens_def)

lemma tokensOf_Cons:
  "tokensOf ((ownr, tokens) # b) o' = (if o' = ownr then fst ` set tokens else tokensOf b o')"
  by (simp add: tokensOf_def getOr_def)

lemma tokensOf_owner: "t \<in> tokensOf b ownr \<Longrightarrow> ownr \<in> fst ` set b"
  by (rule ccontr) (simp add: tokensOf_def getOr_absent)

lemma holders_finite: "finite {ownr. t \<in> tokensOf b ownr}"
  by (rule finite_subset [of _ "fst ` set b"]) (auto dest: tokensOf_owner)

lemma count_getAllTokens:
  assumes "wfBook b"
  shows "count_list (getAllTokens b) t = card {ownr. t \<in> tokensOf b ownr}"
  using assms
proof (induction b)
  case Nil
  then show ?case by (simp add: getAllTokens_def tokensOf_def getOr_def)
next
  case (Cons kv b)
  obtain o1 toks where kv: "kv = (o1, toks)" by (cases kv)
  from Cons.prems kv have w: "wfBook b" and n: "o1 \<notin> fst ` set b" and d: "distinct (map fst toks)"
    by (auto simp: wfBook_def)
  from n have e: "\<not> t \<in> tokensOf b o1" by (auto dest: tokensOf_owner)
  have s: "{ownr. t \<in> tokensOf (kv # b) ownr} =
           (if t \<in> fst ` set toks then {o1} else {}) \<union> {ownr. t \<in> tokensOf b ownr}"
    using e by (auto simp: kv tokensOf_Cons)
  have "card {ownr. t \<in> tokensOf (kv # b) ownr} =
        (if t \<in> fst ` set toks then 1 else 0) + card {ownr. t \<in> tokensOf b ownr}"
    using e holders_finite [of t b] by (simp add: s)
  with Cons.IH [OF w] d show ?case
    by (simp add: kv getAllTokens_Cons count_list_distinct)
qed

lemma bookOf_snoc:
  "bookOf (ws @ [(ownr, token, tranche, amt)]) = addBalance ownr token tranche amt (bookOf ws)"
  by (simp add: bookOf_def)

lemma bookOf_wf: "wfBook (bookOf ws)"
proof (induction ws rule: rev_induct)
  case Nil
  then show ?case by (simp add: bookOf_def wfBook_def)
next
  case (snoc x ws)
  obtain ownr token tranche amt where "x = (ownr, token, tranche, amt)" by (cases x)
  with snoc show ?case by (simp add: bookOf_snoc wfBook_addBalance)
qed

lemma bookOf_tokensOf:
  "tokensOf (bookOf ws) ownr = {token. \<exists>tranche amt. (ownr, token, tranche, amt) \<in> set ws}"
proof (induction ws rule: rev_induct)
  case Nil
  then show ?case by (simp add: bookOf_def tokensOf_def getOr_def)
next
  case (snoc x ws)
  obtain o1 token tranche amt where "x = (o1, token, tranche, amt)" by (cases x)
  with snoc show ?case by (simp add: bookOf_snoc tokensOf_addBalance) blast
qed

text \<open>
  Claim C9, as amended. \<open>getAllTokens\<close> lists exactly the tokens that were written, each once
  for every owner that holds a balance in it: a token held by \<open>k\<close> distinct owners appears \<open>k\<close>
  times.
\<close>

theorem getAllTokens_multiplicity:
  "set (getAllTokens (bookOf writes)) = (\<lambda>(ownr, token, tranche, amt). token) ` set writes \<and>
   count_list (getAllTokens (bookOf writes)) token =
     card {ownr. \<exists>tranche amt. (ownr, token, tranche, amt) \<in> set writes}"
proof -
  have c: "\<And>t. count_list (getAllTokens (bookOf writes)) t =
             card {ownr. \<exists>tranche amt. (ownr, t, tranche, amt) \<in> set writes}"
    using count_getAllTokens [OF bookOf_wf, of writes] by (simp add: bookOf_tokensOf)
  have f: "\<And>t. finite {ownr. \<exists>tranche amt. (ownr, t, tranche, amt) \<in> set writes}"
    using holders_finite [of _ "bookOf writes"] by (simp add: bookOf_tokensOf)
  have "\<And>t. t \<in> set (getAllTokens (bookOf writes)) \<longleftrightarrow>
             t \<in> (\<lambda>(ownr, token, tranche, amt). token) ` set writes"
  proof -
    fix t
    have "t \<in> set (getAllTokens (bookOf writes)) \<longleftrightarrow> 0 < count_list (getAllTokens (bookOf writes)) t"
      by (simp add: count_list_0_iff zero_less_iff_neq_zero)
    also have "\<dots> \<longleftrightarrow> {ownr. \<exists>tranche amt. (ownr, t, tranche, amt) \<in> set writes} \<noteq> {}"
      using f [of t] by (simp add: c card_gt_0_iff)
    also have "\<dots> \<longleftrightarrow> t \<in> (\<lambda>(ownr, token, tranche, amt). token) ` set writes"
      by force
    finally show "t \<in> set (getAllTokens (bookOf writes)) \<longleftrightarrow>
             t \<in> (\<lambda>(ownr, token, tranche, amt). token) ` set writes" .
  qed
  then have "set (getAllTokens (bookOf writes)) = (\<lambda>(ownr, token, tranche, amt). token) ` set writes"
    by blast
  with c show ?thesis by simp
qed

theorem getAllTokens_multiplicity_witness:
  "set (getAllTokens (bookOf twoHolders)) = {''X''} \<and>
   count_list (getAllTokens (bookOf twoHolders)) ''X'' = 2 \<and>
   card {ownr. \<exists>tranche amt. (ownr, ''X'', tranche, amt) \<in> set twoHolders} = 2"
proof -
  have c: "count_list (getAllTokens (bookOf twoHolders)) ''X'' = 2" by code_simp
  have s: "(\<lambda>(ownr, token, tranche, amt). token) ` set twoHolders = {''X''}"
    by (simp add: twoHolders_def)
  from getAllTokens_multiplicity [of twoHolders "''X''"] c s show ?thesis by simp
qed

text \<open>
  The claim as stated fails: with two owners holding token X, \<open>getAllTokens\<close> returns X twice.
\<close>

theorem getAllTokens_counterexample:
  "getAllTokens (bookOf twoHolders) = [''X'', ''X''] \<and> \<not> distinct (getAllTokens (bookOf twoHolders))"
  by code_simp

section \<open>Iterations of the all-or-none fixed point\<close>

lemma validCount_le: "validCount w orders \<le> length orders"
  by (simp add: validCount_def)

text \<open>
  Claim C5, as amended. \<open>checkRings\<close> always terminates (it is a total function: each
  iteration that continues makes at least one valid all-or-none order invalid, and none valid
  again), and on every run, also one that a failed assertion ends, the loop body is executed at
  least once and at most once more than there are valid all-or-none orders, so at most
  \<open>|orders| + 1\<close> times.
\<close>

theorem checkRings_iterations:
  "1 \<le> snd (checkRings w orders rings) \<and>
   snd (checkRings w orders rings) \<le> validCount w orders + 1 \<and>
   snd (checkRings w orders rings) \<le> length orders + 1"
proof -
  have "1 \<le> snd (checkRings w orders rings) \<and> snd (checkRings w orders rings) \<le> validCount w orders + 1"
  proof (induction w orders rings rule: checkRings.induct)
    case (1 w orders rings)
    obtain w1 b where o: "foldl checkRings_order (w, False) orders = (w1, b)"
      by (cases "foldl checkRings_order (w, False) orders")
    show ?case
    proof (cases b)
      case False
      with o show ?thesis by simp
    next
      case True
      show ?thesis
      proof (cases "foldE checkRings_ring (w1, []) rings")
        case (Inl e)
        with o True show ?thesis by simp
      next
        case (Inr x)
        obtain w2 rings2 where x: "x = (w2, rings2)" by (cases x)
        from o True have o': "(w1, True) = foldl checkRings_order (w, False) orders" by simp
        from Inr x have r: "foldE checkRings_ring (w1, []) rings = Inr (w2, rings2)" by simp
        from checkRings_decreases [OF o' r] have d: "validCount w2 orders < validCount w orders" .
        from "1.IH" [OF o' TrueI r refl]
        have ih: "1 \<le> snd (checkRings w2 orders rings2) \<and>
                  snd (checkRings w2 orders rings2) \<le> validCount w2 orders + 1" by simp
        from o True r have "snd (checkRings w orders rings) = Suc (snd (checkRings w2 orders rings2))"
          by (simp split: prod.splits)
        with ih d show ?thesis by simp
      qed
    qed
  qed
  with validCount_le [of w orders] show ?thesis by simp
qed

theorem checkRings_iterations_witness:
  "(case simulate_rings exampleContext aonWorld [newRing [0, 1]] of
      Inl e \<Rightarrow> False
    | Inr (w, rings) \<Rightarrow>
        validCount w [0, 1] = 2 \<and> 1 \<le> snd (checkRings w [0, 1] rings) \<and>
        snd (checkRings w [0, 1] rings) \<le> 3)"
proof -
  have "(case simulate_rings exampleContext aonWorld [newRing [0, 1]] of
      Inl e \<Rightarrow> False
    | Inr (w, rings) \<Rightarrow> validCount w [0, 1] = 2)"
    by (simp add: run_simps aonWorld_def cong: andThen_weak_cong)
  then obtain w rings where
    s: "simulate_rings exampleContext aonWorld [newRing [0, 1]] = Inr (w, rings)" and
    c: "validCount w [0, 1] = 2"
    by (cases "simulate_rings exampleContext aonWorld [newRing [0, 1]]") auto
  from checkRings_iterations [of w "[0, 1]" rings] s c show ?thesis
    by (simp del: checkRings.simps)
qed

text \<open>
  The bound \<open>|orders|\<close> of the claim as stated fails: with the two all-or-none orders A and B
  of one ring, B half filled, the first iteration invalidates B (and the ring, whose fills are
  reverted), the second invalidates A, and the third finds nothing to change: three iterations
  for two orders.
\<close>

theorem checkRings_iterations_counterexample:
  "(case simulate_rings exampleContext aonWorld [newRing [0, 1]] of
      Inl e \<Rightarrow> False
    | Inr (w, rings) \<Rightarrow> snd (checkRings w [0, 1] rings) = 3 \<and> length [0, 1 :: nat] = 2)"
  by (simp add: run_simps aonWorld_def cong: andThen_weak_cong)

section \<open>All-or-none orders at the end of the simulation\<close>

text \<open>
  What the fixed point itself establishes: when \<open>checkRings\<close> returns, every all-or-none order
  of the batch that is still valid is completely filled. It says nothing of the orders that
  are invalid.
\<close>

lemma checkRings_order_filled:
  assumes "checkRings_order (w, b) x = (w1, b1)"
  shows "(\<forall>a. filled w a \<longrightarrow> filled w1 a) \<and> (\<not> b1 \<longrightarrow> \<not> b \<and> filled w1 x)"
  using assms
  by (auto simp: checkRings_order_def filled_def pending_def validateAllOrNone_def Let_def
           split: if_splits)

lemma checkRings_orders_filled:
  assumes "foldl checkRings_order (w, b) orders = (w1, False)"
  shows "\<not> b \<and> (\<forall>a \<in> set orders. filled w1 a) \<and> (\<forall>a. filled w a \<longrightarrow> filled w1 a)"
  using assms
proof (induction orders arbitrary: w b)
  case Nil
  then show ?case by simp
next
  case (Cons x orders)
  obtain w2 b2 where s: "checkRings_order (w, b) x = (w2, b2)"
    by (cases "checkRings_order (w, b) x")
  with Cons.prems have l: "foldl checkRings_order (w2, b2) orders = (w1, False)" by simp
  from Cons.IH [OF l] checkRings_order_filled [OF s] show ?case by auto
qed

lemma checkRings_fixed_point:
  assumes "fst (checkRings w orders rings) = Inr (w', rings')"
    and "a \<in> set orders"
    and "allOrNone (orderHeap w' a)"
    and "OrderInfo.valid (orderHeap w' a)"
  shows "amountS (orderHeap w' a) \<le> filledAmountS (orderHeap w' a)"
  using assms
proof (induction w orders rings rule: checkRings.induct)
  case (1 w orders rings)
  obtain w1 b where o: "foldl checkRings_order (w, False) orders = (w1, b)"
    by (cases "foldl checkRings_order (w, False) orders")
  show ?case
  proof (cases b)
    case False
    with o "1.prems"(1) have "w' = w1" by simp
    with checkRings_orders_filled [of w False orders w1] o False "1.prems"(2-4) show ?thesis
      by (auto simp: filled_def pending_def)
  next
    case True
    show ?thesis
    proof (cases "foldE checkRings_ring (w1, []) rings")
      case (Inl e)
      with o True "1.prems"(1) show ?thesis by simp
    next
      case (Inr x)
      obtain w2 rings2 where x: "x = (w2, rings2)" by (cases x)
      from o True have o': "(w1, True) = foldl checkRings_order (w, False) orders" by simp
      from Inr x have r: "foldE checkRings_ring (w1, []) rings = Inr (w2, rings2)" by simp
      from o True r have "checkRings w orders rings =
          (case checkRings w2 orders rings2 of (res, n) \<Rightarrow> (res, Suc n))"
        by (subst checkRings.simps) (simp del: checkRings.simps)
      with "1.prems"(1) have "fst (checkRings w2 orders rings2) = Inr (w', rings')"
        by (cases "checkRings w2 orders rings2") (simp del: checkRings.simps)
      from "1.IH" [OF o' TrueI r refl this "1.prems"(2-4)] show ?thesis .
    qed
  qed
qed

lemma foldE_unit_all:
  assumes "foldE f () xs = Inr ()" and "x \<in> set xs"
  shows "f () x = Inr ()"
  using assms
proof (induction xs)
  case Nil
  then show ?case by simp
next
  case (Cons y ys)
  from Cons.prems(1) have "f () y = Inr ()" and "foldE f () ys = Inr ()"
    by (auto simp: andThen_eq_Inr)
  with Cons.IH Cons.prems(2) show ?case by auto
qed

text \<open>
  What \<open>validateRings\<close> checks last: where it returns, every all-or-none order of the batch has
  \<open>filledAmountS = 0\<close> or \<open>filledAmountS = amountS\<close>; where one has not, it throws.
\<close>

lemma validateRings_checks_allOrNone:
  assumes "validateRings w orders report = Inr ()"
    and "a \<in> set orders"
    and "allOrNone (orderHeap w a)"
  shows "filledAmountS (orderHeap w a) = 0 \<or>
         filledAmountS (orderHeap w a) = amountS (orderHeap w a)"
proof -
  from assms(1) have "foldE (validateRings_allOrNone w) () orders = Inr ()"
    by (auto simp: validateRings_def andThen_eq_Inr)
  from foldE_unit_all [OF this assms(2)] have "validateRings_allOrNone w () a = Inr ()" .
  with assms(3) show ?thesis
    by (simp add: validateRings_allOrNone_def assert_def Let_def split: if_splits)
qed

text \<open>
  A run that passes: two all-or-none orders that fill each other, through the rings,
  \<open>checkRings\<close> and \<open>validateRings\<close>.
\<close>

lemma allOrNone_filled_run:
  "(case simulate_rings exampleContext fullWorld [newRing [0, 1]] of
      Inl e \<Rightarrow> False
    | Inr (w, rings) \<Rightarrow>
        (case fst (checkRings w [0, 1] rings) of
           Inl e \<Rightarrow> False
         | Inr (w', rings') \<Rightarrow>
             validateRings w' [0, 1] \<lparr>transferItems = [], balancesAfter = []\<rparr> = Inr () \<and>
             allOrNone (orderHeap w' 0) \<and>
             filledAmountS (orderHeap w' 0) = 1000 \<and>
             (filledAmountS (orderHeap w' 0) = 0 \<or>
              filledAmountS (orderHeap w' 0) = amountS (orderHeap w' 0))))"
proof -
  have "(case simulate_rings exampleContext fullWorld [newRing [0, 1]] of
      Inl e \<Rightarrow> False
    | Inr (w, rings) \<Rightarrow>
        (case fst (checkRings w [0, 1] rings) of
           Inl e \<Rightarrow> False
         | Inr (w', rings') \<Rightarrow>
             validateRings w' [0, 1] \<lparr>transferItems = [], balancesAfter = []\<rparr> = Inr () \<and>
             allOrNone (orderHeap w' 0) \<and>
             filledAmountS (orderHeap w' 0) = 1000))"
    by (simp add: run_simps fullWorld_def cong: andThen_weak_cong)
  then obtain w rings where
    s: "simulate_rings exampleContext fullWorld [newRing [0, 1]] = Inr (w, rings)" and
    t: "(case fst (checkRings w [0, 1] rings) of
           Inl e \<Rightarrow> False
         | Inr (w', rings') \<Rightarrow>
             validateRings w' [0, 1] \<lparr>transferItems = [], balancesAfter = []\<rparr> = Inr () \<and>
             allOrNone (orderHeap w' 0) \<and>
             filledAmountS (orderHeap w' 0) = 1000)"
    by (cases "simulate_rings exampleContext fullWorld [newRing [0, 1]]")
       (auto simp del: checkRings.simps)
  then obtain w' rings' where
    c: "fst (checkRings w [0, 1] rings) = Inr (w', rings')" and
    v: "validateRings w' [0, 1] \<lparr>transferItems = [], balancesAfter = []\<rparr> = Inr ()" and
    a: "allOrNone (orderHeap w' 0)" and
    f: "filledAmountS (orderHeap w' 0) = 1000"
    by (cases "fst (checkRings w [0, 1] rings)") (auto simp del: checkRings.simps)
  have m: "0 \<in> set [0, 1 :: nat]" by simp
  from validateRings_checks_allOrNone [OF v m a] s c v a f show ?thesis
    by (simp del: checkRings.simps)
qed

text \<open>
  Claim C4. The code does not keep it for an all-or-none order that was cancelled on chain.
  \<open>batchGetFilledAndCheckCancelled\<close> stores the sentinel \<open>2^256 - 1\<close> as its \<open>filledAmountS\<close>
  and marks it invalid; its ring is invalid, so nothing is filled or reverted; \<open>checkRings\<close>
  changes nothing; and the order ends with \<open>filledAmountS = 2^256 - 1\<close>, neither 0 nor its
  \<open>amountS\<close>. The assertion of \<open>validateRings\<close>, which looks at \<open>filledAmountS\<close> of invalid
  orders too (\<open>collectReport\<close> replaces it by the amount filled before for them), fails and the
  simulation throws.
\<close>

theorem cancelled_allOrNone_fails_validation:
  "(case batchGetFilledAndCheckCancelled [2 ^ 256 - 1, 0] cancelWorld [0, 1] of
      Inl e \<Rightarrow> False
    | Inr w0 \<Rightarrow>
        (case simulate_rings exampleContext w0 [newRing [0, 1]] of
           Inl e \<Rightarrow> False
         | Inr (w1, rings1) \<Rightarrow>
             (case fst (checkRings w1 [0, 1] rings1) of
                Inl e \<Rightarrow> False
              | Inr (w2, rings2) \<Rightarrow>
                  allOrNone (orderHeap w2 0) \<and>
                  amountS (orderHeap w2 0) = 1000 \<and>
                  filledAmountS (orderHeap w2 0) = 2 ^ 256 - 1 \<and>
                  validateRings w2 [0, 1] \<lparr>transferItems = [], balancesAfter = []\<rparr> =
                    Inl (AssertionError
                      ''allOrNone orders should either be completely filled or not at all.''))))"
  by (simp add: run_simps cancelWorld_def setFilled_def cancelledValue_def cong: andThen_weak_cong)

end
